theory Spec2Isabelle
  imports Main "HOL-Library.Sublist"
begin

section \<open>JavaScript strings\<close>

text \<open>
  A JavaScript string is a sequence of UTF-16 code units, and \<open>length\<close>, \<open>trim\<close>,
  \<open>includes\<close> and the regular expressions of the content scripts all work on code units.
  A string is therefore a list of code units, each a natural number; \<open>ustr\<close> turns an
  ASCII literal of the source into that list.
\<close>

type_synonym js_string = "nat list"

definition ustr :: "string \<Rightarrow> js_string" where
  "ustr s = map of_char s"

text \<open>
  White space as JavaScript's \<open>\s\<close> and \<open>String.prototype.trim\<close> read it (the two
  agree): tab, line feed, vertical tab, form feed, carriage return, space, the
  non-breaking space U+00A0, U+1680, U+2000 to U+200A, the line and paragraph separators,
  U+202F, U+205F, U+3000 and the byte order mark U+FEFF.
\<close>

definition isSpace :: "nat \<Rightarrow> bool" where
  "isSpace c =
     (c = 9 \<or> c = 10 \<or> c = 11 \<or> c = 12 \<or> c = 13 \<or> c = 32 \<or> c = 160 \<or> c = 5760 \<or>
      (8192 \<le> c \<and> c \<le> 8202) \<or> c = 8232 \<or> c = 8233 \<or> c = 8239 \<or> c = 8287 \<or>
      c = 12288 \<or> c = 65279)"

definition js_trim :: "js_string \<Rightarrow> js_string" where
  "js_trim s = rev (dropWhile isSpace (rev (dropWhile isSpace s)))"

text \<open>
  \<open>toLowerCase\<close> on the letters A to Z. The phrases the scripts search for are made of
  the letters a to z and the space only. Two characters outside ASCII lower to an ASCII
  letter: the Kelvin sign U+212A to \<open>k\<close>, and no phrase holds a \<open>k\<close>; and U+0130 to
  \<open>i\<close> followed by the combining dot U+0307, and no phrase ends in \<open>i\<close>. So the case
  mappings outside ASCII change no search of this program, and they are left out.
\<close>

definition lowerUnit :: "nat \<Rightarrow> nat" where
  "lowerUnit c = (if 65 \<le> c \<and> c \<le> 90 then c + 32 else c)"

definition toLowerCase :: "js_string \<Rightarrow> js_string" where
  "toLowerCase s = map lowerUnit s"

text \<open>\<open>t.includes(f)\<close>: \<open>f\<close> occurs in \<open>t\<close> as a contiguous run.\<close>

definition js_includes :: "js_string \<Rightarrow> js_string \<Rightarrow> bool" where
  "js_includes t f = sublist f t"

text \<open>\<open>s.endsWith(f)\<close>.\<close>

definition endsWith :: "js_string \<Rightarrow> js_string \<Rightarrow> bool" where
  "endsWith s f = suffix f s"

text \<open>
  \<open>s.replace(/\n{3,}/g, "\n\n")\<close>: every maximal run of three or more line feeds becomes
  two. \<open>collapseGo n\<close> has read \<open>n\<close> line feeds of the current run and not yet
  written them; \<open>flushNewlines\<close> writes the run, cut to two when it is three or longer.
\<close>

definition flushNewlines :: "nat \<Rightarrow> js_string" where
  "flushNewlines n = (if 3 \<le> n then [10, 10] else replicate n 10)"

fun collapseGo :: "nat \<Rightarrow> js_string \<Rightarrow> js_string" where
  "collapseGo n [] = flushNewlines n"
| "collapseGo n (c # cs) =
     (if c = 10 then collapseGo (Suc n) cs
      else flushNewlines n @ c # collapseGo 0 cs)"

definition collapseNewlines :: "js_string \<Rightarrow> js_string" where
  "collapseNewlines s = collapseGo 0 s"

text \<open>
  \<open>s.replace(/\s+/g, " ")\<close>: every maximal run of white space becomes one space. The
  flag says that the previous code unit was white space, so the run's space is written
  already.
\<close>

fun squashGo :: "bool \<Rightarrow> js_string \<Rightarrow> js_string" where
  "squashGo inRun [] = []"
| "squashGo inRun (c # cs) =
     (if isSpace c then (if inRun then squashGo True cs else 32 # squashGo True cs)
      else c # squashGo False cs)"

definition squashSpaces :: "js_string \<Rightarrow> js_string" where
  "squashSpaces s = squashGo False s"

text \<open>The length the extractor ranks by: \<open>t.replace(/\s+/g, " ").length\<close>.\<close>

definition normalizedLength :: "js_string \<Rightarrow> nat" where
  "normalizedLength t = length (squashSpaces t)"

text \<open>
  \<open>s.replace(/\s+\n/g, "\n")\<close>. The match starts at the first white-space unit of a run
  and, \<open>\s+\<close> being greedy, ends at the last line feed of the run that is not the
  run's first unit; it is replaced by one line feed. The white space after that line
  feed holds no line feed, so nothing in it matches again. A run whose only line feed is
  its first unit has no match.
\<close>

function stripBeforeNewline :: "js_string \<Rightarrow> js_string" where
  "stripBeforeNewline [] = []"
| "stripBeforeNewline (c # cs) =
     (if isSpace c \<and> 10 \<in> set (takeWhile isSpace cs)
      then 10 # rev (takeWhile (\<lambda>x. x \<noteq> 10) (rev (takeWhile isSpace cs)))
             @ stripBeforeNewline (dropWhile isSpace cs)
      else c # stripBeforeNewline cs)"
  by pat_completeness auto
termination
  by (relation "measure length") (auto simp add: length_dropWhile_le less_Suc_eq_le)

text \<open>\<open>s.replace(/\u00A0/g, " ")\<close>: the non-breaking space (code unit 160) becomes a space.\<close>

definition replaceNbsp :: "js_string \<Rightarrow> js_string" where
  "replaceNbsp s = map (\<lambda>c. if c = 160 then 32 else c) s"

text \<open>\<open>parts.join("\n\n")\<close>.\<close>

fun joinBlank :: "js_string list \<Rightarrow> js_string" where
  "joinBlank [] = []"
| "joinBlank [p] = p"
| "joinBlank (p # q # ps) = p @ [10, 10] @ joinBlank (q # ps)"

section \<open>The page as the content script sees it\<close>

text \<open>
  The scripts read the page through the DOM interface only: \<open>querySelectorAll\<close> from a
  root with the selector of the source (kept as the source writes it), \<open>innerText\<close>
  (absent on an element that is not an HTML element), \<open>getAttribute\<close>,
  \<open>childElementCount\<close>, \<open>shadowRoot\<close>, \<open>document.title\<close>, \<open>location.hostname\<close>,
  whether the global \<open>customElements\<close> is set, and what
  \<open>new Readability(document.cloneNode(true)).parse()\<close> gives on this page. A \<open>dom\<close> is
  one state of the page; nodes are handles into it.
\<close>

datatype node = Document | Body | Element nat | ShadowRoot nat

datatype readability_outcome =
    ReadabilityThrows
  | ReadabilityNull
  | Article "js_string option" "js_string option"

record dom =
  hostname :: js_string
  docTitle :: js_string
  querySelectorAll :: "node \<Rightarrow> string \<Rightarrow> node list"
  innerText :: "node \<Rightarrow> js_string option"
  getAttribute :: "node \<Rightarrow> string \<Rightarrow> js_string option"
  childElementCount :: "node \<Rightarrow> nat"
  shadowRoot :: "node \<Rightarrow> node option"
  customElements :: bool
  readability :: readability_outcome

text \<open>\<open>root.querySelector(sel)\<close>: the first match in document order, or null.\<close>

definition querySelector :: "dom \<Rightarrow> node \<Rightarrow> string \<Rightarrow> node option" where
  "querySelector d root sel =
     (case querySelectorAll d root sel of [] \<Rightarrow> None | n # _ \<Rightarrow> Some n)"

text \<open>\<open>el.innerText || ""\<close>.\<close>

definition innerTextOrEmpty :: "dom \<Rightarrow> node \<Rightarrow> js_string" where
  "innerTextOrEmpty d el = (case innerText d el of None \<Rightarrow> [] | Some s \<Rightarrow> s)"

text \<open>
  What the page does outside the script's control: how it changes while the script is
  suspended in a timer for the given number of milliseconds, and how it changes when the
  script clicks one of its elements (the flag says that \<open>click()\<close> threw).
\<close>

record page_env =
  settle :: "nat \<Rightarrow> dom \<Rightarrow> dom"
  click :: "node \<Rightarrow> dom \<Rightarrow> dom \<times> bool"

section \<open>Noise classifier and text collector (content.js, first script)\<close>

definition isNoiseParagraph :: "js_string \<Rightarrow> bool" where
  "isNoiseParagraph txt =
     (let t = toLowerCase txt in
        js_includes t (ustr ''i am a bot'') \<or>
        js_includes t (ustr ''performed automatically'') \<or>
        js_includes t (ustr ''contact the moderators'') \<or>
        js_includes t (ustr ''shortstories is a place for'') \<or>
        (js_includes t (ustr ''rules'') \<and> js_includes t (ustr ''report'') \<and>
         js_includes t (ustr ''moderators'')))"

text \<open>
  The body of \<open>collectText\<close>'s \<open>forEach\<close>: the trimmed text of each matched element, in
  document order, kept when it is not empty and not noise.
\<close>

definition collectParts :: "dom \<Rightarrow> node list \<Rightarrow> js_string list" where
  "collectParts d els =
     filter (\<lambda>s. s \<noteq> [] \<and> \<not> isNoiseParagraph s)
       (map (\<lambda>el. js_trim (innerTextOrEmpty d el)) els)"

definition collectText :: "dom \<Rightarrow> node option \<Rightarrow> js_string" where
  "collectText d container =
     (case container of
        None \<Rightarrow> []
      | Some c \<Rightarrow>
          js_trim (collapseNewlines (joinBlank
            (collectParts d (querySelectorAll d c ''p, li, h2, h3, h4, blockquote, pre'')))))"

section \<open>Errors, requests and events\<close>

text \<open>
  Every \<open>throw\<close> of the scripts and every rejection they can meet is a value:
  \<^item> \<open>ExtractionFailed\<close>: \<open>Error("Could not extract article content on this page.")\<close>;
  \<^item> \<open>TooShortToSummarize\<close>: \<open>Error("Extracted text is too short to summarize.")\<close>;
  \<^item> \<open>BackendUnreachable\<close>: \<open>fetch\<close> rejects;
  \<^item> \<open>BackendError status body\<close>: \<open>Error(`Backend error ${resp.status}: ${errText}`)\<close>;
  \<^item> \<open>MalformedResponse\<close>: \<open>Error("Backend returned no summary field.")\<close>;
  \<^item> \<open>TypeError\<close>: a property read on \<open>null\<close> or \<open>undefined\<close>;
  \<^item> \<open>SyntaxError\<close>: \<open>resp.json()\<close> rejects, the body is not JSON;
  \<^item> \<open>ReadabilityError\<close>: the Readability library throws.
\<close>

datatype error =
    ExtractionFailed
  | TooShortToSummarize
  | BackendUnreachable
  | BackendError nat js_string
  | MalformedResponse
  | TypeError
  | SyntaxError
  | ReadabilityError

text \<open>
  The JSON body of a request to \<open>/summarize\<close>: the text, the ratio in percent when the
  script sends one (0.10 is 10, 0.30 is 30) and the level when it sends one.
\<close>

record request =
  req_text :: js_string
  req_ratio :: "nat option"
  req_level :: "js_string option"

text \<open>
  What an activation does to the world outside the script, in the order it does it: a
  timer it waits for, a run of the expander, of the site extractor, of the candidate
  scanner, of the Readability fallback, and a request to the backend.
\<close>

datatype event =
    SettleDelay nat
  | ExpandCollapsers
  | SiteExtractor
  | CandidateScanner
  | ReadabilityFallback
  | Fetch request

record extraction =
  r_title :: js_string
  r_text :: js_string

section \<open>Expander and candidate scanner (content.js, first script)\<close>

definition expandLabels :: "js_string list" where
  "expandLabels =
     [ustr ''read more'', ustr ''show more'', ustr ''continue reading'', ustr ''expand'',
      ustr ''see more'', ustr ''read full'', ustr ''open full'', ustr ''load more'']"

text \<open>\<open>n.innerText || n.getAttribute("aria-label") || ""\<close>.\<close>

definition labelOf :: "dom \<Rightarrow> node \<Rightarrow> js_string" where
  "labelOf d n =
     (if innerTextOrEmpty d n \<noteq> [] then innerTextOrEmpty d n
      else (case getAttribute d n ''aria-label'' of None \<Rightarrow> [] | Some a \<Rightarrow> a))"

text \<open>
  The \<open>forEach\<close> over the nodes found before the first click; each label is read from
  the page as the clicks so far have left it, and what \<open>click()\<close> throws is swallowed.
\<close>

fun expandLoop :: "page_env \<Rightarrow> node list \<Rightarrow> dom \<Rightarrow> dom" where
  "expandLoop e [] d = d"
| "expandLoop e (n # ns) d =
     (let t = toLowerCase (js_trim (labelOf d n)) in
      if t \<noteq> [] \<and> list_ex (\<lambda>lbl. js_includes t lbl) expandLabels
      then expandLoop e ns (fst (click e n d))
      else expandLoop e ns d)"

definition expandCollapsers :: "page_env \<Rightarrow> dom \<Rightarrow> dom" where
  "expandCollapsers e d = expandLoop e (querySelectorAll d Document ''button, a, summary'') d"

definition contentSelectors :: "string list" where
  "contentSelectors =
     [''article'', ''main'', ''[role='main']'', ''#content'', ''.content'', ''.post'', ''.entry'',
      ''.article'', ''.story'', ''.text'', ''.chapter'', ''.readable'', ''.page-content'',
      ''.rich-text'']"

text \<open>
  \<open>candidates.add(el)\<close> for each element of a list: a \<open>Set\<close> keeps the order of first
  insertion and holds a node once.
\<close>

fun addAll :: "node list \<Rightarrow> node list \<Rightarrow> node list" where
  "addAll cs [] = cs"
| "addAll cs (n # ns) = addAll (if n \<in> set cs then cs else cs @ [n]) ns"

definition candidateSet :: "dom \<Rightarrow> node list" where
  "candidateSet d =
     addAll (fold (\<lambda>sel cs. addAll cs (querySelectorAll d Document sel)) contentSelectors [])
       (filter (\<lambda>el. 2 \<le> childElementCount d el) (querySelectorAll d Body ''div, section''))"

record block =
  bestEl :: "node option"
  bestText :: js_string
  bestLen :: nat

fun scanLoop :: "dom \<Rightarrow> node list \<Rightarrow> block \<Rightarrow> block" where
  "scanLoop d [] b = b"
| "scanLoop d (el # els) b =
     (let t = collectText d (Some el); len = normalizedLength t in
      scanLoop d els
        (if bestLen b < len then \<lparr>bestEl = Some el, bestText = t, bestLen = len\<rparr> else b))"

definition largestTextBlock :: "dom \<Rightarrow> block" where
  "largestTextBlock d = scanLoop d (candidateSet d) \<lparr>bestEl = None, bestText = [], bestLen = 0\<rparr>"

section \<open>Reddit extractor (content.js, first script)\<close>

text \<open>
  \<open>document.title.replace(/ : reddit.*$/i, "")\<close>: the first place where
  \<open> : reddit\<close> stands, in any case, with no line terminator after it up to the end of
  the title (\<open>.\<close> matches none), is where the title is cut.
\<close>

definition isLineTerminator :: "nat \<Rightarrow> bool" where
  "isLineTerminator c = (c = 10 \<or> c = 13 \<or> c = 8232 \<or> c = 8233)"

fun stripRedditSuffix :: "js_string \<Rightarrow> js_string" where
  "stripRedditSuffix [] = []"
| "stripRedditSuffix (c # cs) =
     (if toLowerCase (take 9 (c # cs)) = ustr '' : reddit'' \<and>
         list_all (\<lambda>x. \<not> isLineTerminator x) (drop 9 (c # cs))
      then []
      else c # stripRedditSuffix cs)"

text \<open>\<open>root.querySelector('h1')?.innerText?.trim()\<close>, with \<open>undefined\<close> as the empty string.\<close>

definition h1Text :: "dom \<Rightarrow> node \<Rightarrow> js_string" where
  "h1Text d root =
     (case querySelector d root ''h1'' of
        None \<Rightarrow> []
      | Some h \<Rightarrow> (case innerText d h of None \<Rightarrow> [] | Some s \<Rightarrow> js_trim s))"

text \<open>
  The block guarded by \<open>!text && customElements && document.querySelector("shreddit-post")\<close>:
  the post's shadow root, its rich text body and its heading.
\<close>

definition redditShadow :: "dom \<Rightarrow> js_string \<times> js_string \<Rightarrow> js_string \<times> js_string" where
  \<open>redditShadow d held =
     (case held of (title, txt) \<Rightarrow>
        if txt = [] \<and> customElements d \<and> querySelector d Document ''shreddit-post'' \<noteq> None
        then
          (let root = (case querySelector d Document ''shreddit-post'' of
                         None \<Rightarrow> None | Some sp \<Rightarrow> shadowRoot d sp);
               rich = (case root of
                         None \<Rightarrow> None
                       | Some r \<Rightarrow> querySelector d r ''[slot="text-body"], [data-click-id="text"]'');
               txt' = (case rich of None \<Rightarrow> txt | Some r \<Rightarrow> collectText d (Some r));
               h = (case root of None \<Rightarrow> [] | Some r \<Rightarrow> h1Text d r);
               title' = (if title = [] then (if h \<noteq> [] then h else title) else title)
           in (title', txt'))
        else (title, txt))\<close>

text \<open>
  The block for old Reddit markup. \<open>oldTitle.innerText.trim()\<close> has no guard: on an
  element without \<open>innerText\<close> it throws.
\<close>

definition redditLegacy :: "dom \<Rightarrow> js_string \<times> js_string \<Rightarrow> error + js_string \<times> js_string" where
  "redditLegacy d held =
     (case held of (title, txt) \<Rightarrow>
        if txt = [] then
          (let txt' = (case querySelector d Document ''.usertext-body .md'' of
                         None \<Rightarrow> txt | Some md \<Rightarrow> collectText d (Some md))
           in if title = [] then
                (case querySelector d Document ''a.title'' of
                   None \<Rightarrow> Inr (title, txt')
                 | Some oldTitle \<Rightarrow>
                     (case innerText d oldTitle of
                        None \<Rightarrow> Inl TypeError
                      | Some s \<Rightarrow> Inr (js_trim s, txt')))
              else Inr (title, txt'))
        else Inr (title, txt))"

definition extractReddit :: "dom \<Rightarrow> error + extraction" where
  \<open>extractReddit d =
     (let title = (if h1Text d Document \<noteq> [] then h1Text d Document
                   else js_trim (stripRedditSuffix (docTitle d)));
          postContent = (case querySelector d Document ''[data-test-id="post-content"]'' of
                           Some n \<Rightarrow> Some n
                         | None \<Rightarrow> querySelector d Document ''[data-click-id="text"]'');
          txt = (case postContent of None \<Rightarrow> [] | Some n \<Rightarrow> collectText d (Some n))
      in case redditLegacy d (redditShadow d (title, txt)) of
           Inl err \<Rightarrow> Inl err
         | Inr (title', txt') \<Rightarrow>
             (let txt'' = (if txt' = []
                           then collectText d (querySelector d Document ''main, [role="main"]'')
                           else txt')
              in Inr \<lparr>r_title = (if title' \<noteq> [] then title' else docTitle d), r_text = txt''\<rparr>))\<close>

section \<open>Extraction orchestrator (content.js, first script)\<close>

text \<open>
  \<open>extractArticleText\<close> in the order of its lines: the timer of 300 ms and the expander
  (\<open>prepare\<close>, lines 124 and 125), the three strategies (\<open>gather\<close>, lines 127 to 154) and
  the title fallback, the emptiness check and the normalization (\<open>finish\<close>, lines 156 to
  160).
\<close>

definition prepare :: "page_env \<Rightarrow> dom \<Rightarrow> dom" where
  "prepare e d = expandCollapsers e (settle e 300 d)"

definition siteStep :: "dom \<Rightarrow> event list \<times> (error + js_string \<times> js_string)" where
  "siteStep d =
     (if endsWith (hostname d) (ustr ''reddit.com'')
      then ([SiteExtractor],
            (case extractReddit d of Inl err \<Rightarrow> Inl err | Inr r \<Rightarrow> Inr (r_title r, r_text r)))
      else ([], Inr ([], [])))"

definition scanStep :: "dom \<Rightarrow> js_string \<Rightarrow> event list \<times> js_string" where
  "scanStep d txt =
     (if txt = [] \<or> normalizedLength txt < 800
      then ([CandidateScanner],
            (let bigText = bestText (largestTextBlock d) in
             if bigText \<noteq> [] \<and> length txt < length bigText then bigText else txt))
      else ([], txt))"

text \<open>\<open>article.title || title || document.title || ""\<close>.\<close>

definition firstTitle :: "js_string option \<Rightarrow> js_string \<Rightarrow> js_string \<Rightarrow> js_string" where
  "firstTitle articleTitle title documentTitle =
     (case articleTitle of
        Some a \<Rightarrow> (if a \<noteq> [] then a else if title \<noteq> [] then title else documentTitle)
      | None \<Rightarrow> (if title \<noteq> [] then title else documentTitle))"

definition readabilityStep ::
  "dom \<Rightarrow> js_string \<times> js_string \<Rightarrow> event list \<times> js_string \<times> js_string" where
  "readabilityStep d held =
     (case held of (title, txt) \<Rightarrow>
        if txt = [] \<or> normalizedLength txt < 400
        then ([ReadabilityFallback],
              (case readability d of
                 Article articleTitle (Some textContent) \<Rightarrow>
                   if textContent \<noteq> []
                   then (js_trim (firstTitle articleTitle title (docTitle d)),
                         (let t = js_trim textContent in
                          if length txt < length t then t else txt))
                   else (title, txt)
               | _ \<Rightarrow> (title, txt)))
        else ([], title, txt))"

definition gather :: "dom \<Rightarrow> event list \<times> (error + js_string \<times> js_string)" where
  "gather d =
     (case siteStep d of
        (tr1, Inl err) \<Rightarrow> (tr1, Inl err)
      | (tr1, Inr (title, txt)) \<Rightarrow>
          (case scanStep d txt of (tr2, txt2) \<Rightarrow>
             (case readabilityStep d (title, txt2) of (tr3, held) \<Rightarrow>
                (tr1 @ tr2 @ tr3, Inr held))))"

definition normalizeText :: "js_string \<Rightarrow> js_string" where
  "normalizeText txt = js_trim (collapseNewlines (stripBeforeNewline (replaceNbsp txt)))"

definition finish :: "dom \<Rightarrow> js_string \<times> js_string \<Rightarrow> error + extraction" where
  "finish d held =
     (case held of (title, txt) \<Rightarrow>
        if txt = [] then Inl ExtractionFailed
        else Inr \<lparr>r_title = (if title = [] then docTitle d else title),
                  r_text = normalizeText txt\<rparr>)"

definition extractArticleText :: "page_env \<Rightarrow> dom \<Rightarrow> event list \<times> (error + extraction)" where
  "extractArticleText e d0 =
     (let d = prepare e d0 in
      case gather d of
        (tr, Inl err) \<Rightarrow> ([SettleDelay 300, ExpandCollapsers] @ tr, Inl err)
      | (tr, Inr held) \<Rightarrow> ([SettleDelay 300, ExpandCollapsers] @ tr, finish d held))"

section \<open>Extraction in the other two scripts\<close>

text \<open>
  \<open>extractSimple\<close> of the second script in content.js: Readability inside a \<open>try\<close>,
  then the text of the main landmark or of the body. It waits for nothing and cannot
  fail.
\<close>

definition extractSimple :: "dom \<Rightarrow> event list \<times> extraction" where
  \<open>extractSimple d =
     (let title = (case readability d of
                     Article (Some a) _ \<Rightarrow> (if a \<noteq> [] then a else docTitle d)
                   | _ \<Rightarrow> docTitle d);
          txt = (case readability d of
                   Article _ (Some tc) \<Rightarrow> (if tc \<noteq> [] then js_trim tc else [])
                 | _ \<Rightarrow> []);
          txt' = (if txt = []
                  then (let main = (case querySelector d Document ''article, main, [role="main"]'' of
                                      Some n \<Rightarrow> n | None \<Rightarrow> Body)
                        in js_trim (innerTextOrEmpty d main))
                  else txt)
      in ([ReadabilityFallback], \<lparr>r_title = title, r_text = txt'\<rparr>))\<close>

text \<open>
  \<open>extractArticleText\<close> of the third script (part 000): a timer of 400 ms, then
  Readability alone, outside any \<open>try\<close>.
\<close>

definition extractArticleText3 :: "page_env \<Rightarrow> dom \<Rightarrow> event list \<times> (error + extraction)" where
  "extractArticleText3 e d0 =
     (let d = settle e 400 d0 in
      ([SettleDelay 400, ReadabilityFallback],
       (case readability d of
          ReadabilityThrows \<Rightarrow> Inl ReadabilityError
        | ReadabilityNull \<Rightarrow> Inl ExtractionFailed
        | Article articleTitle textContent \<Rightarrow>
            (case textContent of
               None \<Rightarrow> Inl ExtractionFailed
             | Some tc \<Rightarrow>
                 if tc = [] then Inl ExtractionFailed
                 else Inr \<lparr>r_title = firstTitle articleTitle [] (docTitle d),
                           r_text = js_trim tc\<rparr>))))"

section \<open>Summarization client\<close>

text \<open>
  A parsed JSON value. Numbers are the integers (a fraction or an exponent is outside
  the model; of a number the client only asks whether it is zero); an object is its
  members in the order of the text, and a later member of the same name wins, as in
  \<open>JSON.parse\<close>.
\<close>

datatype json =
    JNull
  | JBool bool
  | JNum int
  | JStr js_string
  | JArr "json list"
  | JObj "(js_string \<times> json) list"

text \<open>
  \<open>data.summary\<close>: a property read on \<open>null\<close> throws, on an object it is the member of
  that name or \<open>undefined\<close> (here \<open>None\<close>), and on a boolean, a number, a string or an
  array it is \<open>undefined\<close>.
\<close>

definition getSummary :: "json \<Rightarrow> error + json option" where
  "getSummary data =
     (case data of
        JNull \<Rightarrow> Inl TypeError
      | JObj members \<Rightarrow> Inr (map_of (rev members) (ustr ''summary''))
      | _ \<Rightarrow> Inr None)"

text \<open>JavaScript's truthiness of a property that may be \<open>undefined\<close>.\<close>

definition truthy :: "json option \<Rightarrow> bool" where
  "truthy v =
     (case v of
        None \<Rightarrow> False
      | Some JNull \<Rightarrow> False
      | Some (JBool b) \<Rightarrow> b
      | Some (JNum n) \<Rightarrow> n \<noteq> 0
      | Some (JStr s) \<Rightarrow> s \<noteq> []
      | Some (JArr _) \<Rightarrow> True
      | Some (JObj _) \<Rightarrow> True)"

text \<open>
  A response of the backend: its status, the body as \<open>resp.text()\<close> gives it (\<open>None\<close>
  when that rejects) and as \<open>resp.json()\<close> gives it (\<open>None\<close> when that rejects).
  \<open>resp.ok\<close> is, by the Fetch standard, that the status is in the range 200 to 299.
\<close>

record response =
  status :: nat
  bodyText :: "js_string option"
  bodyJson :: "json option"

definition ok :: "response \<Rightarrow> bool" where
  "ok resp = (200 \<le> status resp \<and> status resp \<le> 299)"

datatype fetch_outcome = NetworkError | Responded response

text \<open>
  The lines after \<open>await fetch(...)\<close>, the same in the first and the third script:
  \<open>if (!resp.ok) throw ...; const data = await resp.json();
  if (!data.summary) throw ...; return data.summary\<close>.
\<close>

definition readSummary :: "fetch_outcome \<Rightarrow> error + json" where
  "readSummary outcome =
     (case outcome of
        NetworkError \<Rightarrow> Inl BackendUnreachable
      | Responded resp \<Rightarrow>
          if \<not> ok resp
          then Inl (BackendError (status resp) (case bodyText resp of None \<Rightarrow> [] | Some t \<Rightarrow> t))
          else (case bodyJson resp of
                  None \<Rightarrow> Inl SyntaxError
                | Some data \<Rightarrow>
                    (case getSummary data of
                       Inl err \<Rightarrow> Inl err
                     | Inr v \<Rightarrow>
                         (case v of
                            None \<Rightarrow> Inl MalformedResponse
                          | Some x \<Rightarrow> if truthy v then Inr x else Inl MalformedResponse))))"

text \<open>The second script ends with \<open>return data.summary || ""\<close> instead.\<close>

definition readSummaryOrEmpty :: "fetch_outcome \<Rightarrow> error + json" where
  "readSummaryOrEmpty outcome =
     (case outcome of
        NetworkError \<Rightarrow> Inl BackendUnreachable
      | Responded resp \<Rightarrow>
          if \<not> ok resp
          then Inl (BackendError (status resp) (case bodyText resp of None \<Rightarrow> [] | Some t \<Rightarrow> t))
          else (case bodyJson resp of
                  None \<Rightarrow> Inl SyntaxError
                | Some data \<Rightarrow>
                    (case getSummary data of
                       Inl err \<Rightarrow> Inl err
                     | Inr v \<Rightarrow>
                         (case v of
                            None \<Rightarrow> Inr (JStr [])
                          | Some x \<Rightarrow> if truthy v then Inr x else Inr (JStr [])))))"

text \<open>
  The three clients differ in the request they send: \<open>{text, ratio: 0.10, level: "ratio"}\<close>
  in the first script, \<open>{text, ratio: SUMMARY_RATIO}\<close> with the ratio 0.30 in the second,
  \<open>{text, level}\<close> in the third. The backend is the function from requests to
  outcomes.
\<close>

definition summarizeText ::
  "(request \<Rightarrow> fetch_outcome) \<Rightarrow> js_string \<Rightarrow> event list \<times> (error + json)" where
  "summarizeText backend txt =
     (let req = \<lparr>req_text = txt, req_ratio = Some 10, req_level = Some (ustr ''ratio'')\<rparr>
      in ([Fetch req], readSummary (backend req)))"

definition summarizeText2 ::
  "(request \<Rightarrow> fetch_outcome) \<Rightarrow> js_string \<Rightarrow> event list \<times> (error + json)" where
  "summarizeText2 backend txt =
     (let req = \<lparr>req_text = txt, req_ratio = Some 30, req_level = None\<rparr>
      in ([Fetch req], readSummaryOrEmpty (backend req)))"

definition summarizeText3 ::
  "(request \<Rightarrow> fetch_outcome) \<Rightarrow> js_string \<Rightarrow> js_string \<Rightarrow> event list \<times> (error + json)" where
  "summarizeText3 backend txt level =
     (let req = \<lparr>req_text = txt, req_ratio = None, req_level = Some level\<rparr>
      in ([Fetch req], readSummary (backend req)))"

section \<open>The overlay's HTML escaping\<close>

text \<open>
  \<open>escapeHtml\<close> is the same function in all three content scripts:
  \<^verbatim>\<open>String(s).replace(/[&<>"']/g, c => ({'&':'&amp;', ...}[c]))\<close>.
  Each of the five characters is replaced by its entity, every other code unit is kept.
  The code units are 38 (ampersand), 60 (less-than), 62 (greater-than), 34 (double quote)
  and 39 (single quote).
\<close>

definition escapeChar :: "nat \<Rightarrow> js_string" where
  "escapeChar c =
     (if c = 38 then ustr ''&amp;''
      else if c = 60 then ustr ''&lt;''
      else if c = 62 then ustr ''&gt;''
      else if c = 34 then ustr ''&quot;''
      else if c = 39 then ustr ''&#39;''
      else [c])"

definition escapeHtml :: "js_string \<Rightarrow> js_string" where
  "escapeHtml s = concat (map escapeChar s)"

definition entities :: "js_string list" where
  "entities = [ustr ''&amp;'', ustr ''&lt;'', ustr ''&gt;'', ustr ''&quot;'', ustr ''&#39;'']"

text \<open>
  What \<open>showOverlay\<close> puts on the page: the header's HTML, built from the escaped title
  (code unit 8212 is the dash of the source), and the body, set through \<open>textContent\<close>,
  which is the summary or the message of the error caught. The second script gives the
  header's \<open>div\<close> a class; the rest is the same in the three scripts.
\<close>

datatype overlay_body = SummaryText json | ErrorText error

record overlay =
  headerHtml :: js_string
  body :: overlay_body

definition header :: "js_string \<Rightarrow> js_string \<Rightarrow> js_string" where
  "header openTag title =
     openTag @ ustr ''Summary '' @ [8212] @ ustr '' '' @ escapeHtml title @ ustr ''</div>''"

definition showOverlay :: "js_string \<Rightarrow> overlay_body \<Rightarrow> overlay" where
  "showOverlay title b = \<lparr>headerHtml = header (ustr ''<div>'') title, body = b\<rparr>"

definition showOverlay2 :: "js_string \<Rightarrow> overlay_body \<Rightarrow> overlay" where
  \<open>showOverlay2 title b =
     \<lparr>headerHtml = header (ustr ''<div class="src-card-header-title">'') title, body = b\<rparr>\<close>

section \<open>Activation handlers\<close>

text \<open>
  The \<open>try\<close> block of the click handler of each script, then the handler:
  \<open>catch (err) { showOverlay('Summary Error', String(err.message || err)) }\<close>. The
  \<open>finally\<close> block restores the button's label and enables it on every path.
\<close>

definition tryBody ::
  "page_env \<Rightarrow> (request \<Rightarrow> fetch_outcome) \<Rightarrow> dom \<Rightarrow> event list \<times> (error + js_string \<times> json)" where
  "tryBody e backend d =
     (case extractArticleText e d of
        (tr, Inl err) \<Rightarrow> (tr, Inl err)
      | (tr, Inr r) \<Rightarrow>
          if length (r_text r) < 80 then (tr, Inl TooShortToSummarize)
          else (case summarizeText backend (r_text r) of
                  (tr', Inl err) \<Rightarrow> (tr @ tr', Inl err)
                | (tr', Inr summary) \<Rightarrow> (tr @ tr', Inr (r_title r, summary))))"

definition tryBody2 ::
  "(request \<Rightarrow> fetch_outcome) \<Rightarrow> dom \<Rightarrow> event list \<times> (error + js_string \<times> json)" where
  "tryBody2 backend d =
     (case extractSimple d of
        (tr, r) \<Rightarrow>
          if length (r_text r) < 80 then (tr, Inl TooShortToSummarize)
          else (case summarizeText2 backend (r_text r) of
                  (tr', Inl err) \<Rightarrow> (tr @ tr', Inl err)
                | (tr', Inr summary) \<Rightarrow> (tr @ tr', Inr (r_title r, summary))))"

definition tryBody3 ::
  "page_env \<Rightarrow> (request \<Rightarrow> fetch_outcome) \<Rightarrow> dom \<Rightarrow> event list \<times> (error + js_string \<times> json)" where
  "tryBody3 e backend d =
     (case extractArticleText3 e d of
        (tr, Inl err) \<Rightarrow> (tr, Inl err)
      | (tr, Inr r) \<Rightarrow>
          if length (r_text r) < 80 then (tr, Inl TooShortToSummarize)
          else (case summarizeText3 backend (r_text r) (ustr ''detailed'') of
                  (tr', Inl err) \<Rightarrow> (tr @ tr', Inl err)
                | (tr', Inr summary) \<Rightarrow> (tr @ tr', Inr (r_title r, summary))))"

definition present ::
  "(js_string \<Rightarrow> overlay_body \<Rightarrow> overlay) \<Rightarrow> event list \<times> (error + js_string \<times> json)
   \<Rightarrow> event list \<times> overlay" where
  "present overlayOf outcome =
     (case outcome of
        (tr, Inl err) \<Rightarrow> (tr, overlayOf (ustr ''Summary Error'') (ErrorText err))
      | (tr, Inr (title, summary)) \<Rightarrow> (tr, overlayOf title (SummaryText summary)))"

definition onTldrClick ::
  "page_env \<Rightarrow> (request \<Rightarrow> fetch_outcome) \<Rightarrow> dom \<Rightarrow> event list \<times> overlay" where
  "onTldrClick e backend d = present showOverlay (tryBody e backend d)"

definition onTldrClick2 :: "(request \<Rightarrow> fetch_outcome) \<Rightarrow> dom \<Rightarrow> event list \<times> overlay" where
  "onTldrClick2 backend d = present showOverlay2 (tryBody2 backend d)"

definition onTldrClick3 ::
  "page_env \<Rightarrow> (request \<Rightarrow> fetch_outcome) \<Rightarrow> dom \<Rightarrow> event list \<times> overlay" where
  "onTldrClick3 e backend d = present showOverlay (tryBody3 e backend d)"

section \<open>Placement engine (part 000)\<close>

text \<open>
  The four inline style properties of the host element that the engine writes, each
  \<open>auto\<close> or a number of pixels, and a corner as the source's table has it, a missing
  side being \<open>null\<close>. The script calls \<open>ensureVisible\<close> as soon as it has injected the
  host, which writes all four properties, so every later state has this form.
\<close>

datatype css = Auto | Px int

record hostStyle =
  s_right :: css
  s_left :: css
  s_bottom :: css
  s_top :: css

record corner =
  c_right :: "int option"
  c_bottom :: "int option"
  c_left :: "int option"
  c_top :: "int option"

definition corners :: "corner list" where
  "corners =
     [\<lparr>c_right = Some 16, c_bottom = Some 16, c_left = None, c_top = None\<rparr>,
      \<lparr>c_right = None, c_bottom = Some 16, c_left = Some 16, c_top = None\<rparr>,
      \<lparr>c_right = Some 16, c_bottom = None, c_left = None, c_top = Some 16\<rparr>,
      \<lparr>c_right = None, c_bottom = None, c_left = Some 16, c_top = Some 16\<rparr>]"

definition px :: "int option \<Rightarrow> css" where
  "px v = (case v of None \<Rightarrow> Auto | Some n \<Rightarrow> Px n)"

definition applyCorner :: "corner \<Rightarrow> hostStyle \<Rightarrow> hostStyle" where
  "applyCorner c s =
     s\<lparr>s_right := px (c_right c), s_left := px (c_left c),
       s_bottom := px (c_bottom c), s_top := px (c_top c)\<rparr>"

text \<open>
  \<open>isClickable\<close> asks the page which element is on top at the centre of the host; with
  the page held fixed during one run of \<open>ensureVisible\<close> the answer is a function of the
  host's style, the parameter \<open>hit\<close> below. The first loop of \<open>ensureVisible\<close> returns
  from the function at the first corner that passes; \<open>tryCorners\<close> gives the style and
  whether it returned.
\<close>

fun tryCorners :: "(hostStyle \<Rightarrow> bool) \<Rightarrow> corner list \<Rightarrow> hostStyle \<Rightarrow> hostStyle \<times> bool" where
  "tryCorners hit [] s = (s, False)"
| "tryCorners hit (c # cs) s =
     (let s' = applyCorner c s in if hit s' then (s', True) else tryCorners hit cs s')"

text \<open>The second loop: \<open>k\<close> rounds are left and \<open>offset\<close> is the variable of the source.\<close>

fun slideUp :: "(hostStyle \<Rightarrow> bool) \<Rightarrow> nat \<Rightarrow> int \<Rightarrow> hostStyle \<Rightarrow> hostStyle" where
  "slideUp hit 0 offset s = s"
| "slideUp hit (Suc k) offset s =
     (let s' = s\<lparr>s_right := Px 16, s_left := Auto, s_bottom := Px (16 + offset), s_top := Auto\<rparr>
      in if hit s' then s' else slideUp hit k (offset + 100) s')"

definition ensureVisible :: "(hostStyle \<Rightarrow> bool) \<Rightarrow> hostStyle \<Rightarrow> hostStyle" where
  "ensureVisible hit s =
     (case tryCorners hit corners s of
        (s', True) \<Rightarrow> s'
      | (s', False) \<Rightarrow> slideUp hit 5 100 s')"

text \<open>
  Dragging. \<open>mousedown\<close> records the pointer and the offsets (\<open>parseInt\<close> of the style,
  16 for \<open>auto\<close>), \<open>onDrag\<close> writes the right and bottom offsets, clamped at zero, and
  \<open>onUp\<close> ends the drag and calls \<open>ensureVisible\<close>.
\<close>

record drag =
  dragging :: bool
  sx :: int
  sy :: int
  startRight :: int
  startBottom :: int

definition parsePx :: "css \<Rightarrow> int" where
  "parsePx v = (case v of Auto \<Rightarrow> 16 | Px n \<Rightarrow> n)"

definition mousedown :: "int \<times> int \<Rightarrow> hostStyle \<Rightarrow> drag" where
  "mousedown pointer s =
     \<lparr>dragging = True, sx = fst pointer, sy = snd pointer,
      startRight = parsePx (s_right s), startBottom = parsePx (s_bottom s)\<rparr>"

definition onDrag :: "drag \<Rightarrow> int \<times> int \<Rightarrow> hostStyle \<Rightarrow> hostStyle" where
  "onDrag g pointer s =
     (if \<not> dragging g then s
      else s\<lparr>s_right := Px (max 0 (startRight g + (sx g - fst pointer))),
             s_bottom := Px (max 0 (startBottom g + (sy g - snd pointer)))\<rparr>)"

definition onUp :: "(hostStyle \<Rightarrow> bool) \<Rightarrow> drag \<Rightarrow> hostStyle \<Rightarrow> drag \<times> hostStyle" where
  "onUp hit g s = (g\<lparr>dragging := False\<rparr>, ensureVisible hit s)"

section \<open>Properties of the noise classifier\<close>

text \<open>
  What it is for a text to contain a phrase without regard to case, said without the
  functions of the program: two code units are the same letter when they are equal or
  one is a capital letter A to Z and the other is the small letter 32 above it, and a
  text contains a phrase when some contiguous part of it matches the phrase letter by
  letter. The phrase fragments are the four of the classifier.
\<close>

definition isUpper :: "nat \<Rightarrow> bool" where
  "isUpper c = (65 \<le> c \<and> c \<le> 90)"

definition sameLetter :: "nat \<Rightarrow> nat \<Rightarrow> bool" where
  "sameLetter a b = (a = b \<or> (isUpper a \<and> b = a + 32) \<or> (isUpper b \<and> a = b + 32))"

definition phraseFragments :: "js_string list" where
  "phraseFragments =
     [ustr ''i am a bot'', ustr ''performed automatically'',
      ustr ''contact the moderators'', ustr ''shortstories is a place for'']"

definition containsCI :: "js_string \<Rightarrow> js_string \<Rightarrow> bool" where
  "containsCI t f = (\<exists>pre u post. t = pre @ u @ post \<and> list_all2 sameLetter u f)"

text \<open>
  On a phrase without capital letters, lowering a text and comparing is the same as
  matching letter by letter.
\<close>

lemma lowerUnit_sameLetter: "\<not> isUpper b \<Longrightarrow> (lowerUnit a = b) = sameLetter a b"
  by (auto simp add: lowerUnit_def sameLetter_def isUpper_def)

lemma map_lowerUnit_sameLetter:
  "\<forall>b\<in>set f. \<not> isUpper b \<Longrightarrow> (map lowerUnit u = f) = list_all2 sameLetter u f"
proof (induction u arbitrary: f)
  case Nil
  show ?case by auto
next
  case (Cons a u)
  show ?case
  proof (cases f)
    case Nil
    then show ?thesis by simp
  next
    case (Cons b g)
    with Cons.prems have "\<not> isUpper b" "\<forall>b\<in>set g. \<not> isUpper b" by simp_all
    with Cons.IH [of g] Cons show ?thesis by (simp add: lowerUnit_sameLetter)
  qed
qed

lemma includes_toLowerCase:
  assumes "\<forall>b\<in>set f. \<not> isUpper b"
  shows "js_includes (toLowerCase t) f = containsCI t f"
proof
  assume "js_includes (toLowerCase t) f"
  then obtain ps ss where "map lowerUnit t = ps @ f @ ss"
    by (auto simp add: js_includes_def sublist_def toLowerCase_def)
  then obtain pre r where r: "t = pre @ r" "map lowerUnit r = f @ ss"
    by (metis map_eq_append_conv)
  then obtain u post where "r = u @ post" "map lowerUnit u = f"
    by (metis map_eq_append_conv)
  with r assms have "t = pre @ u @ post" "list_all2 sameLetter u f"
    by (simp_all add: map_lowerUnit_sameLetter)
  then show "containsCI t f" by (auto simp add: containsCI_def)
next
  assume "containsCI t f"
  then obtain pre u post where t: "t = pre @ u @ post" and u: "list_all2 sameLetter u f"
    by (auto simp add: containsCI_def)
  from u assms have "map lowerUnit u = f" by (simp add: map_lowerUnit_sameLetter)
  with t have "map lowerUnit t = map lowerUnit pre @ f @ map lowerUnit post" by simp
  then show "js_includes (toLowerCase t) f"
    by (auto simp add: js_includes_def sublist_def toLowerCase_def)
qed

lemma phrases_lower:
  "\<forall>b\<in>set (ustr ''i am a bot''). \<not> isUpper b"
  "\<forall>b\<in>set (ustr ''performed automatically''). \<not> isUpper b"
  "\<forall>b\<in>set (ustr ''contact the moderators''). \<not> isUpper b"
  "\<forall>b\<in>set (ustr ''shortstories is a place for''). \<not> isUpper b"
  "\<forall>b\<in>set (ustr ''rules''). \<not> isUpper b"
  "\<forall>b\<in>set (ustr ''report''). \<not> isUpper b"
  "\<forall>b\<in>set (ustr ''moderators''). \<not> isUpper b"
  by (simp_all add: ustr_def isUpper_def)

text \<open>
  Claim C5. For every string, \<open>isNoiseParagraph\<close> is true exactly when the string contains,
  without regard to case, one of the four phrase fragments, or contains all three of
  \<open>rules\<close>, \<open>report\<close> and \<open>moderators\<close>; in every other case it is false.
\<close>

theorem isNoiseParagraph_iff:
  "isNoiseParagraph txt =
     ((\<exists>f\<in>set phraseFragments. containsCI txt f) \<or>
      (containsCI txt (ustr ''rules'') \<and> containsCI txt (ustr ''report'') \<and>
       containsCI txt (ustr ''moderators'')))"
  by (simp add: isNoiseParagraph_def phraseFragments_def includes_toLowerCase phrases_lower)

text \<open>
  The theorem on texts in capitals and in mixed case, and the classifier on a text that
  holds two of the three words only.
\<close>

lemma sameLetter_upper:
  "list_all2 sameLetter (ustr ''PERFORMED AUTOMATICALLY'') (ustr ''performed automatically'')"
  by (simp add: ustr_def sameLetter_def isUpper_def)

theorem isNoiseParagraph_iff_witness:
  "list_all2 sameLetter (ustr ''PERFORMED AUTOMATICALLY'') (ustr ''performed automatically'') \<and>
   isNoiseParagraph (ustr ''Note: PERFORMED AUTOMATICALLY.'') \<and>
   isNoiseParagraph (ustr ''See the Rules, then Report to the Moderators'') \<and>
   \<not> isNoiseParagraph (ustr ''Rules and reports'')"
proof -
  have "ustr ''Note: PERFORMED AUTOMATICALLY.'' =
      ustr ''Note: '' @ ustr ''PERFORMED AUTOMATICALLY'' @ ustr ''.''"
    by (simp add: ustr_def)
  with sameLetter_upper
  have a: "containsCI (ustr ''Note: PERFORMED AUTOMATICALLY.'') (ustr ''performed automatically'')"
    unfolding containsCI_def by blast
  then have "\<exists>f\<in>set phraseFragments. containsCI (ustr ''Note: PERFORMED AUTOMATICALLY.'') f"
    by (simp add: phraseFragments_def)
  with isNoiseParagraph_iff [of "ustr ''Note: PERFORMED AUTOMATICALLY.''"]
  have 1: "isNoiseParagraph (ustr ''Note: PERFORMED AUTOMATICALLY.'')" by blast
  have b: "ustr ''See the Rules, then Report to the Moderators'' =
      ustr ''See the '' @ ustr ''Rules'' @ ustr '', then Report to the Moderators''"
    "ustr ''See the Rules, then Report to the Moderators'' =
      ustr ''See the Rules, then '' @ ustr ''Report'' @ ustr '' to the Moderators''"
    "ustr ''See the Rules, then Report to the Moderators'' =
      ustr ''See the Rules, then Report to the '' @ ustr ''Moderators'' @ []"
    by (simp_all add: ustr_def)
  have c: "list_all2 sameLetter (ustr ''Rules'') (ustr ''rules'')"
    "list_all2 sameLetter (ustr ''Report'') (ustr ''report'')"
    "list_all2 sameLetter (ustr ''Moderators'') (ustr ''moderators'')"
    by (simp_all add: ustr_def sameLetter_def isUpper_def)
  have "containsCI (ustr ''See the Rules, then Report to the Moderators'') (ustr ''rules'')"
    "containsCI (ustr ''See the Rules, then Report to the Moderators'') (ustr ''report'')"
    "containsCI (ustr ''See the Rules, then Report to the Moderators'') (ustr ''moderators'')"
    unfolding containsCI_def using b c by blast+
  with isNoiseParagraph_iff [of "ustr ''See the Rules, then Report to the Moderators''"]
  have 2: "isNoiseParagraph (ustr ''See the Rules, then Report to the Moderators'')" by blast
  have 3: "\<not> isNoiseParagraph (ustr ''Rules and reports'')"
    by (simp add: isNoiseParagraph_def toLowerCase_def lowerUnit_def js_includes_def ustr_def
        sublist_Cons_right)
  from 1 2 3 sameLetter_upper show ?thesis by simp
qed

section \<open>Properties of the text collector\<close>

text \<open>
  A text is unbroken when it is not empty, neither starts nor ends with a line feed and
  holds no blank line (two line feeds in a row). An unbroken part of the collected text
  survives the trimming, the collapsing of line-feed runs and the joining only inside one
  of the parts; and a text that holds a flagged text is flagged.
\<close>

lemma set_flushNewlines: "set (flushNewlines n) \<subseteq> {10}"
  by (auto simp add: flushNewlines_def)

lemma sublist_js_trim: "sublist u (js_trim s) \<Longrightarrow> sublist u s"
proof -
  have "suffix (dropWhile isSpace s) s" by (rule suffix_dropWhile)
  moreover have "prefix (js_trim s) (dropWhile isSpace s)"
    unfolding js_trim_def
    by (metis prefix_def rev_append rev_rev_ident takeWhile_dropWhile_id)
  ultimately have "sublist (js_trim s) s"
    by (meson prefix_imp_sublist suffix_imp_sublist sublist_order.order_trans)
  moreover assume "sublist u (js_trim s)"
  ultimately show ?thesis by (meson sublist_order.order_trans)
qed

lemma collectParts_clean: "p \<in> set (collectParts d els) \<Longrightarrow> \<not> isNoiseParagraph p"
  by (simp add: collectParts_def)

lemma no_triple_flush:
  assumes "\<not> sublist [10, 10, 10] ys" "c \<noteq> 10"
  shows "\<not> sublist [10, 10, 10] (flushNewlines n @ c # ys)"
proof
  assume "sublist [10, 10, 10] (flushNewlines n @ c # ys)"
  then consider "sublist [10, 10, 10] (flushNewlines n)" | "sublist [10, 10, 10] (c # ys)"
    | u1 u2 where "[10, 10, 10] = u1 @ u2" "suffix u1 (flushNewlines n)" "prefix u2 (c # ys)"
    by (auto simp add: sublist_append)
  then show False
  proof cases
    case 1
    then have "length [10, 10, 10 :: nat] \<le> length (flushNewlines n)" by (rule sublist_length_le)
    then show False by (simp add: flushNewlines_def split: if_splits)
  next
    case 2
    with assms show False by (auto simp add: sublist_Cons_right)
  next
    case 3
    show False
    proof (cases u2)
      case Nil
      with 3 have "length [10, 10, 10 :: nat] \<le> length (flushNewlines n)"
        by (auto dest: suffix_length_le)
      then show False by (simp add: flushNewlines_def split: if_splits)
    next
      case (Cons x xs)
      with 3(3) have "x = c" by simp
      moreover from Cons 3(1) have "x \<in> set [10, 10, 10 :: nat]" 
        by (metis in_set_conv_decomp)
      ultimately show False using assms(2) by simp
    qed
  qed
qed

lemma collapseGo_no_triple: "\<not> sublist [10, 10, 10] (collapseGo n cs)"
proof (induction cs arbitrary: n)
  case Nil
  show ?case
  proof
    assume "sublist [10, 10, 10] (collapseGo n [])"
    then have "length [10, 10, 10 :: nat] \<le> length (flushNewlines n)"
      by (auto dest: sublist_length_le)
    then show False by (simp add: flushNewlines_def split: if_splits)
  qed
next
  case (Cons c cs)
  show ?case
  proof (cases "c = 10")
    case True
    with Cons.IH [of "Suc n"] show ?thesis by simp
  next
    case False
    with no_triple_flush [OF Cons.IH [of 0] False, of n] show ?thesis by simp
  qed
qed

lemma collectText_no_triple: "\<not> js_includes (collectText d c) [10, 10, 10]"
proof (cases c)
  case None
  then show ?thesis by (simp add: collectText_def js_includes_def)
next
  case (Some r)
  show ?thesis
  proof
    assume "js_includes (collectText d c) [10, 10, 10]"
    with Some have "sublist [10, 10, 10]
        (js_trim (collapseGo 0 (joinBlank
           (collectParts d (querySelectorAll d r ''p, li, h2, h3, h4, blockquote, pre'')))))"
      by (simp add: collectText_def js_includes_def collapseNewlines_def)
    then have "sublist [10, 10, 10] (collapseGo 0 (joinBlank
           (collectParts d (querySelectorAll d r ''p, li, h2, h3, h4, blockquote, pre''))))"
      by (rule sublist_js_trim)
    with collapseGo_no_triple show False by blast
  qed
qed

definition unbroken :: "js_string \<Rightarrow> bool" where
  "unbroken u = (u \<noteq> [] \<and> hd u \<noteq> 10 \<and> last u \<noteq> 10 \<and> \<not> sublist [10, 10] u)"

lemma collapseGo_two_hd: "\<exists>r. collapseGo (Suc (Suc n)) cs = 10 # 10 # r"
proof (induction cs arbitrary: n)
  case Nil
  show ?case by (cases n; cases "n - 1") (auto simp add: flushNewlines_def)
next
  case (Cons c cs)
  show ?case
  proof (cases "c = 10")
    case True
    with Cons.IH [of "Suc n"] show ?thesis by simp
  next
    case False
    then show ?thesis by (cases n; cases "n - 1") (auto simp add: flushNewlines_def)
  qed
qed

lemma prefix_collapseGo:
  "prefix v (collapseGo n cs) \<Longrightarrow> n \<le> 1 \<Longrightarrow> \<not> sublist [10, 10] v \<Longrightarrow>
   (v \<noteq> [] \<Longrightarrow> last v \<noteq> 10) \<Longrightarrow> prefix v (replicate n 10 @ cs)"
proof (induction cs arbitrary: n v)
  case Nil
  then show ?case by (simp add: flushNewlines_def)
next
  case (Cons c cs)
  show ?case
  proof (cases "c = 10")
    case True
    show ?thesis
    proof (cases n)
      case 0
      with True Cons.prems have "prefix v (collapseGo (Suc 0) cs)" by simp
      then have "prefix v (replicate (Suc 0) 10 @ cs)"
        using Cons.prems(3,4) by (intro Cons.IH) simp_all
      with True 0 show ?thesis by simp
    next
      case (Suc m)
      with Cons.prems(2) have n: "n = Suc 0" by simp
      from collapseGo_two_hd [of 0 cs] obtain r where r: "collapseGo (Suc (Suc 0)) cs = 10 # 10 # r" ..
      from True n Cons.prems(1) r have p: "prefix v (10 # 10 # r)" by simp
      show ?thesis
      proof (cases v)
        case Nil
        then show ?thesis by simp
      next
        case (Cons x v')
        with p have x: "x = 10" "prefix v' (10 # r)" by simp_all
        show ?thesis
        proof (cases v')
          case Nil
          with Cons x Cons.prems(4) show ?thesis by simp
        next
          case (Cons y v'')
          with x have "y = 10" by simp
          with Cons \<open>v = x # v'\<close> x have "prefix [10, 10] v" by simp
          then have "sublist [10, 10] v" by (rule prefix_imp_sublist)
          with Cons.prems(3) show ?thesis by simp
        qed
      qed
    qed
  next
    case False
    from Cons.prems(2) have f: "flushNewlines n = replicate n 10"
      by (simp add: flushNewlines_def)
    with False Cons.prems(1) have p: "prefix v (replicate n 10 @ c # collapseGo 0 cs)" by simp
    then consider "prefix v (replicate n 10)"
      | v' where "v = replicate n 10 @ v'" "prefix v' (c # collapseGo 0 cs)"
      by (auto simp add: prefix_append)
    then show ?thesis
    proof cases
      case 1
      then show ?thesis by (simp add: prefix_append)
    next
      case 2
      show ?thesis
      proof (cases v')
        case Nil
        with 2 show ?thesis by simp
      next
        case (Cons x w)
        with 2 have x: "x = c" and w: "prefix w (collapseGo 0 cs)" by simp_all
        from 2(1) Cons have "suffix w v" by (simp add: suffix_def)
        then have sw: "sublist w v" by (rule suffix_imp_sublist)
        have "\<not> sublist [10, 10] w"
          using sw Cons.prems(3) by (meson sublist_order.order_trans)
        moreover have "w \<noteq> [] \<Longrightarrow> last w \<noteq> 10"
          using 2(1) Cons Cons.prems(4) by auto
        ultimately have "prefix w (replicate 0 10 @ cs)"
          using w by (intro Cons.IH) simp_all
        with 2(1) Cons x show ?thesis by simp
      qed
    qed
  qed
qed

lemma unbroken_not_newlines:
  assumes "unbroken u" "sublist u (a @ b)" "set a \<subseteq> {10}"
  shows "sublist u b"
proof -
  from assms(1) have ne: "u \<noteq> []" and h: "hd u \<noteq> 10" by (simp_all add: unbroken_def)
  from assms(2) consider "sublist u a" | "sublist u b"
    | u1 u2 where "u = u1 @ u2" "suffix u1 a" "prefix u2 b"
    by (auto simp add: sublist_append)
  then show ?thesis
  proof cases
    case 1
    then have "set u \<subseteq> set a" by (rule set_mono_sublist)
    with ne h assms(3) show ?thesis by (cases u) auto
  next
    case 2
    then show ?thesis .
  next
    case 3
    from 3(2) have "set u1 \<subseteq> set a" by (rule set_mono_suffix)
    with ne h assms(3) 3(1) have "u1 = []" by (cases u1) auto
    with 3 show ?thesis by simp
  qed
qed

lemma unbroken_collapseGo:
  "sublist u (collapseGo n cs) \<Longrightarrow> unbroken u \<Longrightarrow> sublist u cs"
proof (induction cs arbitrary: n)
  case Nil
  then have "sublist u (flushNewlines n @ [])" by simp
  with Nil.prems(2) have "sublist u []"
    using set_flushNewlines by (rule unbroken_not_newlines)
  with Nil.prems(2) show ?case by (simp add: unbroken_def)
next
  case (Cons c cs)
  show ?case
  proof (cases "c = 10")
    case True
    with Cons.prems have "sublist u (collapseGo (Suc n) cs)" by simp
    then have "sublist u cs" using Cons.prems(2) by (rule Cons.IH)
    then show ?thesis by (simp add: sublist_Cons_right)
  next
    case False
    with Cons.prems have "sublist u (flushNewlines n @ c # collapseGo 0 cs)" by simp
    with Cons.prems(2) have "sublist u (c # collapseGo 0 cs)"
      using set_flushNewlines by (rule unbroken_not_newlines)
    then consider "prefix u (c # collapseGo 0 cs)" | "sublist u (collapseGo 0 cs)"
      by (auto simp add: sublist_Cons_right)
    then show ?thesis
    proof cases
      case 1
      from Cons.prems(2) have ne: "u \<noteq> []" by (simp add: unbroken_def)
      with 1 obtain u' where u: "u = c # u'" "prefix u' (collapseGo 0 cs)"
        by (cases u) auto
      have "sublist u' u" using u(1) by (auto simp add: sublist_def intro: exI [of _ "[c]"])
      with Cons.prems(2) have "\<not> sublist [10, 10] u'"
        unfolding unbroken_def by (meson sublist_order.order_trans)
      moreover from Cons.prems(2) u(1) have "u' \<noteq> [] \<Longrightarrow> last u' \<noteq> 10"
        by (auto simp add: unbroken_def)
      ultimately have "prefix u' (replicate 0 10 @ cs)"
        using u(2) by (intro prefix_collapseGo) simp_all
      with u show ?thesis by (simp add: sublist_Cons_right)
    next
      case 2
      then have "sublist u cs" using Cons.prems(2) by (rule Cons.IH)
      then show ?thesis by (simp add: sublist_Cons_right)
    qed
  qed
qed

lemma unbroken_joinBlank:
  "sublist u (joinBlank ps) \<Longrightarrow> unbroken u \<Longrightarrow> \<exists>p\<in>set ps. sublist u p"
proof (induction ps rule: joinBlank.induct)
  case 1
  then show ?case by (simp add: unbroken_def)
next
  case (2 p)
  then show ?case by simp
next
  case (3 p q ps)
  from "3.prems"(2) have ne: "u \<noteq> []" and l: "last u \<noteq> 10" and nb: "\<not> sublist [10, 10] u"
    by (simp_all add: unbroken_def)
  from "3.prems"(1) have "sublist u (p @ [10, 10] @ joinBlank (q # ps))" by simp
  then consider "sublist u p" | "sublist u ([10, 10] @ joinBlank (q # ps))"
    | u1 u2 where "u = u1 @ u2" "suffix u1 p" "prefix u2 ([10, 10] @ joinBlank (q # ps))"
    by (auto simp add: sublist_append)
  then show ?case
  proof cases
    case 1
    then show ?thesis by auto
  next
    case 2
    with "3.prems"(2) have "sublist u (joinBlank (q # ps))"
      by (rule unbroken_not_newlines) simp
    then have "\<exists>p\<in>set (q # ps). sublist u p" using "3.prems"(2) by (rule "3.IH")
    then show ?thesis by auto
  next
    case 3
    have "u2 = []"
    proof (cases u2)
      case Nil
      then show ?thesis .
    next
      case (Cons x w)
      with 3(3) have x: "x = 10" and w: "prefix w (10 # joinBlank (q # ps))" by simp_all
      show ?thesis
      proof (cases w)
        case Nil
        with Cons x 3(1) l show ?thesis by simp
      next
        case (Cons y w')
        with w have "y = 10" by simp
        with Cons \<open>u2 = x # w\<close> x 3(1) have "u = u1 @ [10, 10] @ w'" by simp
        then have "sublist [10, 10] u" by (auto simp add: sublist_def)
        with nb show ?thesis by simp
      qed
    qed
    with 3 have "sublist u p" by auto
    then show ?thesis by auto
  qed
qed

lemma isNoiseParagraph_mono:
  assumes "isNoiseParagraph u" "sublist u p"
  shows "isNoiseParagraph p"
proof -
  from assms(2) have "sublist (toLowerCase u) (toLowerCase p)"
    unfolding toLowerCase_def by (rule map_mono_sublist)
  then have "js_includes (toLowerCase u) f \<Longrightarrow> js_includes (toLowerCase p) f" for f
    unfolding js_includes_def by (meson sublist_order.order_trans)
  with assms(1) show ?thesis
    unfolding isNoiseParagraph_def Let_def by blast
qed

lemma collectText_no_unbroken_noise:
  assumes "isNoiseParagraph u" "unbroken u"
  shows "\<not> sublist u (collectText d c)"
proof (cases c)
  case None
  with assms(2) show ?thesis by (simp add: collectText_def unbroken_def)
next
  case (Some r)
  let ?parts = "collectParts d (querySelectorAll d r ''p, li, h2, h3, h4, blockquote, pre'')"
  show ?thesis
  proof
    assume "sublist u (collectText d c)"
    with Some have "sublist u (js_trim (collapseGo 0 (joinBlank ?parts)))"
      by (simp add: collectText_def collapseNewlines_def)
    then have "sublist u (collapseGo 0 (joinBlank ?parts))" by (rule sublist_js_trim)
    then have "sublist u (joinBlank ?parts)" using assms(2) by (rule unbroken_collapseGo)
    then have "\<exists>p\<in>set ?parts. sublist u p" using assms(2) by (rule unbroken_joinBlank)
    then obtain p where p: "p \<in> set ?parts" "sublist u p" by blast
    from assms(1) p(2) have "isNoiseParagraph p" by (rule isNoiseParagraph_mono)
    with p(1) show False by (simp add: collectParts_clean)
  qed
qed

lemma unbroken_trimmed:
  assumes "js_trim s \<noteq> []" "\<not> sublist [10, 10] (js_trim s)"
  shows "unbroken (js_trim s)"
proof -
  let ?d = "dropWhile isSpace s"
  let ?r = "dropWhile isSpace (rev ?d)"
  have t: "js_trim s = rev ?r" by (simp add: js_trim_def)
  from assms(1) have r: "?r \<noteq> []" by (simp add: js_trim_def)
  then have "\<not> isSpace (hd ?r)" by (rule hd_dropWhile)
  moreover from r have "last (js_trim s) = hd ?r" by (simp add: js_trim_def last_rev)
  ultimately have l: "last (js_trim s) \<noteq> 10" by (auto simp add: isSpace_def)
  have "rev ?d = takeWhile isSpace (rev ?d) @ ?r" by simp
  then have "rev (rev ?d) = rev (takeWhile isSpace (rev ?d) @ ?r)" by simp
  then have d: "?d = js_trim s @ rev (takeWhile isSpace (rev ?d))"
    by (simp only: rev_rev_ident rev_append t)
  have "?d \<noteq> []"
  proof
    assume "?d = []"
    with d show False using assms(1) by (metis append_is_Nil_conv)
  qed
  then have "\<not> isSpace (hd ?d)" by (rule hd_dropWhile)
  moreover from d assms(1) have "hd ?d = hd (js_trim s)" by (metis hd_append2)
  ultimately have h: "hd (js_trim s) \<noteq> 10" by (auto simp add: isSpace_def)
  from assms h l show ?thesis by (simp add: unbroken_def)
qed

lemma newline_free_unbroken: "u \<noteq> [] \<Longrightarrow> 10 \<notin> set u \<Longrightarrow> unbroken u"
proof -
  assume ne: "u \<noteq> []" and nl: "10 \<notin> set u"
  from ne have "hd u \<in> set u" "last u \<in> set u" by simp_all
  with nl have "hd u \<noteq> 10" "last u \<noteq> 10" by auto
  moreover have "\<not> sublist [10, 10] u"
  proof
    assume "sublist [10, 10] u"
    then have "set [10, 10] \<subseteq> set u" by (rule set_mono_sublist)
    with nl show False by simp
  qed
  ultimately show ?thesis using ne by (simp add: unbroken_def)
qed

lemma fragment_occurrence:
  assumes f: "f \<in> set phraseFragments" and inc: "js_includes (toLowerCase s) f"
  shows "\<exists>u. sublist u s \<and> unbroken u \<and> isNoiseParagraph u"
proof -
  from inc obtain ps ss where "map lowerUnit s = ps @ f @ ss"
    by (auto simp add: js_includes_def sublist_def toLowerCase_def)
  then obtain pre r where r: "s = pre @ r" "map lowerUnit r = f @ ss"
    by (metis map_eq_append_conv)
  then obtain u post where u: "r = u @ post" "map lowerUnit u = f"
    by (metis map_eq_append_conv)
  with r have "s = pre @ u @ post" by simp
  then have 1: "sublist u s" by (auto simp add: sublist_def)
  from f have plain: "f \<noteq> [] \<and> 10 \<notin> set f"
    by (auto simp add: phraseFragments_def ustr_def)
  have "(lowerUnit x = 10) = (x = 10)" for x
    by (auto simp add: lowerUnit_def)
  with u(2) plain have "10 \<notin> set u" by (auto simp add: image_iff)
  moreover from u(2) plain have "u \<noteq> []" by auto
  ultimately have 2: "unbroken u" by (simp add: newline_free_unbroken)
  from u(2) have "js_includes (toLowerCase u) f"
    by (simp add: toLowerCase_def js_includes_def)
  with f have 3: "isNoiseParagraph u"
    by (auto simp add: isNoiseParagraph_def phraseFragments_def)
  from 1 2 3 show ?thesis by blast
qed

text \<open>
  A moderation notice quoted on a forum page: the \<open>blockquote\<close> (element 11) holds three
  paragraphs (elements 12 to 14), so its rendered text is their texts with blank lines
  between; a bot's disclaimer (element 15) follows. The quote as a whole holds
  \<open>rules\<close>, \<open>report\<close> and \<open>moderators\<close> and is noise; none of its paragraphs is.
\<close>

definition noticeText :: js_string where
  "noticeText = ustr ''rules'' @ [10, 10] @ ustr ''report'' @ [10, 10] @ ustr ''moderators''"

definition moderationQuote :: dom where
  "moderationQuote =
     \<lparr> hostname = ustr ''forum.example'',
       docTitle = ustr ''Thread'',
       querySelectorAll = (\<lambda>root sel.
         if root = Element 10 \<and> sel = ''p, li, h2, h3, h4, blockquote, pre''
         then [Element 11, Element 12, Element 13, Element 14, Element 15] else []),
       innerText = (\<lambda>n.
         if n = Element 11 then Some noticeText
         else if n = Element 12 then Some (ustr ''rules'')
         else if n = Element 13 then Some (ustr ''report'')
         else if n = Element 14 then Some (ustr ''moderators'')
         else if n = Element 15 then Some (ustr '' I am a bot. '')
         else None),
       getAttribute = (\<lambda>n a. None),
       childElementCount = (\<lambda>n. 0),
       shadowRoot = (\<lambda>n. None),
       customElements = False,
       readability = ReadabilityNull \<rparr>"

lemma mq_qsa: "querySelectorAll moderationQuote (Element 10) ''p, li, h2, h3, h4, blockquote, pre'' =
    [Element 11, Element 12, Element 13, Element 14, Element 15]"
  by (simp add: moderationQuote_def)

lemma mq_trim:
  "js_trim (innerTextOrEmpty moderationQuote (Element 11)) = noticeText"
  "js_trim (innerTextOrEmpty moderationQuote (Element 12)) = ustr ''rules''"
  "js_trim (innerTextOrEmpty moderationQuote (Element 13)) = ustr ''report''"
  "js_trim (innerTextOrEmpty moderationQuote (Element 14)) = ustr ''moderators''"
  "js_trim (innerTextOrEmpty moderationQuote (Element 15)) = ustr ''I am a bot.''"
  by (simp_all add: moderationQuote_def innerTextOrEmpty_def js_trim_def isSpace_def ustr_def noticeText_def)

lemma mq_noise:
  "isNoiseParagraph noticeText"
  "\<not> isNoiseParagraph (ustr ''rules'')"
  "\<not> isNoiseParagraph (ustr ''report'')"
  "\<not> isNoiseParagraph (ustr ''moderators'')"
  "isNoiseParagraph (ustr ''I am a bot.'')"
  by (simp_all add: isNoiseParagraph_def toLowerCase_def lowerUnit_def js_includes_def ustr_def sublist_Cons_right noticeText_def)

lemma mq_parts: "collectParts moderationQuote [Element 11, Element 12, Element 13, Element 14, Element 15]
   = [ustr ''rules'', ustr ''report'', ustr ''moderators'']"
  unfolding collectParts_def list.map mq_trim
  by (simp add: mq_noise) (simp add: ustr_def noticeText_def)

lemma mq_text: "collectText moderationQuote (Some (Element 10)) = noticeText"
  unfolding collectText_def option.case mq_qsa mq_parts
  by (simp add: ustr_def collapseNewlines_def flushNewlines_def js_trim_def isSpace_def noticeText_def)

text \<open>
  Claim C6 as stated fails on that page: the \<open>blockquote\<close> is flagged by the classifier,
  and the collected text is its trimmed rendered text, spelled by the three paragraphs
  that are kept.
\<close>

theorem collectText_noise_counterexample:
  "Element 11 \<in> set (querySelectorAll moderationQuote (Element 10) ''p, li, h2, h3, h4, blockquote, pre'') \<and>
   isNoiseParagraph (js_trim (innerTextOrEmpty moderationQuote (Element 11))) \<and>
   js_includes (collectText moderationQuote (Some (Element 10)))
     (js_trim (innerTextOrEmpty moderationQuote (Element 11)))"
  by (simp add: mq_qsa mq_trim mq_noise mq_text js_includes_def)

text \<open>
  Claim C6, amended. For every page and every root, the text \<open>collectText\<close> returns
  includes no string that has an unbroken part which the classifier flags. So it never
  includes the trimmed rendered text of a flagged element that holds no blank line, and
  never a string that contains one of the four phrase fragments; what it can include is
  a text that is flagged only by \<open>rules\<close>, \<open>report\<close> and \<open>moderators\<close> standing in
  different paragraphs of it. No text that the classifier flags is one of the parts that
  are joined; the returned text has no run of three or more line feeds; and an absent
  root gives the empty string.
\<close>

theorem collectText_clean:
  "(\<forall>s u. js_includes s u \<and> unbroken u \<and> isNoiseParagraph u \<longrightarrow>
      \<not> js_includes (collectText d c) s) \<and>
   (\<forall>s. isNoiseParagraph (js_trim s) \<and> \<not> js_includes (js_trim s) [10, 10] \<longrightarrow>
      \<not> js_includes (collectText d c) (js_trim s)) \<and>
   (\<forall>s f. f \<in> set phraseFragments \<and> js_includes (toLowerCase s) f \<longrightarrow>
      \<not> js_includes (collectText d c) s) \<and>
   (\<forall>p\<in>set (collectParts d els). \<not> isNoiseParagraph p) \<and>
   \<not> js_includes (collectText d c) [10, 10, 10] \<and>
   collectText d None = []"
proof -
  have block: "\<not> js_includes (collectText d c) s"
    if "sublist u s" "unbroken u" "isNoiseParagraph u" for s u
  proof
    assume "js_includes (collectText d c) s"
    with that(1) have "sublist u (collectText d c)"
      unfolding js_includes_def by (meson sublist_order.order_trans)
    with collectText_no_unbroken_noise [OF that(3) that(2)] show False by blast
  qed
  show ?thesis
  proof (intro conjI allI impI ballI)
    fix s u assume "js_includes s u \<and> unbroken u \<and> isNoiseParagraph u"
    with block [of u s] show "\<not> js_includes (collectText d c) s"
      by (simp add: js_includes_def)
  next
    fix s assume a: "isNoiseParagraph (js_trim s) \<and> \<not> js_includes (js_trim s) [10, 10]"
    then have "js_trim s \<noteq> []"
      by (auto simp add: isNoiseParagraph_def toLowerCase_def js_includes_def ustr_def)
    with a have "unbroken (js_trim s)" by (simp add: unbroken_trimmed js_includes_def)
    with a block [of "js_trim s" "js_trim s"]
    show "\<not> js_includes (collectText d c) (js_trim s)" by simp
  next
    fix s f assume "f \<in> set phraseFragments \<and> js_includes (toLowerCase s) f"
    then obtain u where "sublist u s" "unbroken u" "isNoiseParagraph u"
      using fragment_occurrence by blast
    then show "\<not> js_includes (collectText d c) s" by (rule block)
  next
    fix p assume "p \<in> set (collectParts d els)"
    then show "\<not> isNoiseParagraph p" by (rule collectParts_clean)
  next
    show "\<not> js_includes (collectText d c) [10, 10, 10]" by (rule collectText_no_triple)
  next
    show "collectText d None = []" by (simp add: collectText_def)
  qed
qed

text \<open>
  The theorem on the forum page: the bot's disclaimer is left out, and so would be a
  one-line notice that is flagged by the three words.
\<close>

definition listing :: js_string where
  "listing = ustr ''rules, report, moderators''"

theorem collectText_clean_witness:
  "js_trim (innerTextOrEmpty moderationQuote (Element 15)) = ustr ''I am a bot.'' \<and>
   isNoiseParagraph (ustr ''I am a bot.'') \<and>
   unbroken (ustr ''I am a bot.'') \<and>
   js_includes (toLowerCase (ustr ''I am a bot.'')) (ustr ''i am a bot'') \<and>
   \<not> js_includes (collectText moderationQuote (Some (Element 10))) (ustr ''I am a bot.'') \<and>
   isNoiseParagraph listing \<and> js_trim listing = listing \<and> \<not> js_includes listing [10, 10] \<and>
   \<not> js_includes (collectText moderationQuote (Some (Element 10))) listing \<and>
   ustr ''rules'' \<in> set (collectParts moderationQuote [Element 11, Element 12]) \<and>
   \<not> isNoiseParagraph (ustr ''rules'')"
proof -
  have n: "isNoiseParagraph (ustr ''I am a bot.'')" by (rule mq_noise)
  have u: "unbroken (ustr ''I am a bot.'')"
    by (rule newline_free_unbroken) (simp_all add: ustr_def)
  have i: "js_includes (toLowerCase (ustr ''I am a bot.'')) (ustr ''i am a bot'')"
    by (simp add: toLowerCase_def lowerUnit_def js_includes_def ustr_def sublist_Cons_right)
  have f: "ustr ''i am a bot'' \<in> set phraseFragments" by (simp add: phraseFragments_def)
  have l: "isNoiseParagraph listing" "js_trim listing = listing" "\<not> js_includes listing [10, 10]"
    by (simp_all add: listing_def isNoiseParagraph_def toLowerCase_def lowerUnit_def
        js_includes_def ustr_def sublist_Cons_right js_trim_def isSpace_def)
  have parts: "collectParts moderationQuote [Element 11, Element 12] = [ustr ''rules'']"
    unfolding collectParts_def list.map mq_trim
    by (simp add: mq_noise) (simp add: ustr_def noticeText_def)
  have s: "js_includes (ustr ''I am a bot.'') (ustr ''I am a bot.'')"
    by (simp add: js_includes_def)
  note t = collectText_clean [of moderationQuote "Some (Element 10)" "[Element 11, Element 12]"]
  from t s u n have 1: "\<not> js_includes (collectText moderationQuote (Some (Element 10))) (ustr ''I am a bot.'')"
    by blast
  from t l have 2: "\<not> js_includes (collectText moderationQuote (Some (Element 10))) listing"
    by metis
  from t f i have 3: "\<not> js_includes (collectText moderationQuote (Some (Element 10))) (ustr ''I am a bot.'')"
    by blast
  from t parts have 4: "\<not> isNoiseParagraph (ustr ''rules'')" by simp
  from 1 2 3 4 n u i l parts show ?thesis by (simp add: mq_trim)
qed

section \<open>Properties of the extraction orchestrator\<close>

text \<open>
  The events of the three strategies, the ones that read text from the page.
\<close>

definition measuring :: "event set" where
  "measuring = {SiteExtractor, CandidateScanner, ReadabilityFallback}"

lemma gather_trace: "set (fst (gather d)) \<subseteq> measuring"
  by (auto simp add: gather_def siteStep_def scanStep_def readabilityStep_def measuring_def
      split: prod.splits sum.splits if_splits readability_outcome.splits option.splits)

lemma extractArticleText_trace:
  "fst (extractArticleText e d) = SettleDelay 300 # ExpandCollapsers # fst (gather (prepare e d))"
  by (simp add: extractArticleText_def Let_def split: prod.splits sum.splits)

lemma extractArticleText_result:
  "snd (extractArticleText e d) =
     (case snd (gather (prepare e d)) of
        Inl err \<Rightarrow> Inl err
      | Inr held \<Rightarrow> finish (prepare e d) held)"
  by (simp add: extractArticleText_def Let_def split: prod.splits sum.splits)

lemma extractArticleText_no_fetch: "Fetch q \<notin> set (fst (extractArticleText e d))"
  using gather_trace [of "prepare e d"]
  by (auto simp add: extractArticleText_trace measuring_def)

text \<open>
  A page with no element that any selector of the scripts matches, and surroundings in
  which the timer changes nothing and a click does nothing.
\<close>

definition quietEnv :: page_env where
  "quietEnv = \<lparr>settle = (\<lambda>ms d. d), click = (\<lambda>n d. (d, False))\<rparr>"

definition blankPage :: dom where
  "blankPage =
     \<lparr>hostname = ustr ''example.org'',
      docTitle = ustr ''Example'',
      querySelectorAll = (\<lambda>root sel. []),
      innerText = (\<lambda>n. None),
      getAttribute = (\<lambda>n a. None),
      childElementCount = (\<lambda>n. 0),
      shadowRoot = (\<lambda>n. None),
      customElements = False,
      readability = ReadabilityNull\<rparr>"

lemma prepare_quiet_blank: "prepare quietEnv (blankPage\<lparr>readability := x\<rparr>) = blankPage\<lparr>readability := x\<rparr>"
  by (simp add: prepare_def quietEnv_def blankPage_def expandCollapsers_def)

lemma largest_blank: "largestTextBlock (blankPage\<lparr>readability := x\<rparr>) = \<lparr>bestEl = None, bestText = [], bestLen = 0\<rparr>"
  by (simp add: largestTextBlock_def candidateSet_def blankPage_def contentSelectors_def)

lemma gather_blank:
  "gather (blankPage\<lparr>readability := ReadabilityNull\<rparr>) = ([CandidateScanner, ReadabilityFallback], Inr ([], []))"
  unfolding gather_def siteStep_def scanStep_def largest_blank
  by (simp add: readabilityStep_def) (simp add: blankPage_def endsWith_def suffix_to_prefix ustr_def)

text \<open>
  Claim C1 as stated fails: an attempt of the first script waits for the timer first and
  runs the expander after it, and an attempt of the third script runs no expander.
\<close>

theorem expansion_first_counterexample:
  "fst (extractArticleText quietEnv (blankPage\<lparr>readability := ReadabilityNull\<rparr>)) =
     [SettleDelay 300, ExpandCollapsers, CandidateScanner, ReadabilityFallback] \<and>
   fst (extractArticleText3 quietEnv blankPage) = [SettleDelay 400, ReadabilityFallback]"
  by (simp add: extractArticleText_trace prepare_quiet_blank gather_blank extractArticleText3_def Let_def)

text \<open>
  Claim C1, amended. In every extraction attempt of the first script the fixed delay of
  300 ms is waited first and the expander is run after it; nothing is waited for between
  the expansion and the text measurement, which reads the page exactly as the expander
  left it. An attempt of the third script waits 400 ms and runs no expander, and one of
  the second script waits for nothing.
\<close>

theorem delay_precedes_expansion:
  "(\<exists>tr. fst (extractArticleText e d) = SettleDelay 300 # ExpandCollapsers # tr \<and>
         set tr \<subseteq> measuring) \<and>
   snd (extractArticleText e d) =
     (case snd (gather (expandCollapsers e (settle e 300 d))) of
        Inl err \<Rightarrow> Inl err
      | Inr held \<Rightarrow> finish (expandCollapsers e (settle e 300 d)) held) \<and>
   fst (extractArticleText3 e d) = [SettleDelay 400, ReadabilityFallback] \<and>
   fst (extractSimple d) = [ReadabilityFallback]"
proof (intro conjI)
  show "\<exists>tr. fst (extractArticleText e d) = SettleDelay 300 # ExpandCollapsers # tr \<and>
         set tr \<subseteq> measuring"
    using gather_trace [of "prepare e d"] by (simp add: extractArticleText_trace)
  show "snd (extractArticleText e d) =
     (case snd (gather (expandCollapsers e (settle e 300 d))) of
        Inl err \<Rightarrow> Inl err
      | Inr held \<Rightarrow> finish (expandCollapsers e (settle e 300 d)) held)"
    using extractArticleText_result [of e d] by (simp add: prepare_def split: sum.splits)
  show "fst (extractArticleText3 e d) = [SettleDelay 400, ReadabilityFallback]"
    by (simp add: extractArticleText3_def Let_def)
  show "fst (extractSimple d) = [ReadabilityFallback]"
    by (simp add: extractSimple_def Let_def)
qed



















text \<open>
  The code units of a text that are not white space. The final normalization only
  removes or replaces white space, so it keeps them all; and every text that the chain
  can hold was trimmed, so it holds such a code unit unless it is empty.
\<close>

definition ink :: "js_string \<Rightarrow> js_string" where
  "ink s = filter (\<lambda>c. \<not> isSpace c) s"

definition inked :: "js_string \<Rightarrow> bool" where
  "inked s = (s = [] \<or> ink s \<noteq> [])"

lemma ink_dropWhile: "ink (dropWhile isSpace s) = ink s"
  by (induction s) (simp_all add: ink_def)

lemma ink_rev: "ink (rev s) = rev (ink s)"
  by (simp add: ink_def rev_filter)

lemma ink_trim: "ink (js_trim s) = ink s"
  by (simp add: js_trim_def ink_rev ink_dropWhile)

lemma ink_append: "ink (a @ b) = ink a @ ink b"
  by (simp add: ink_def)

lemma ink_spaces: "\<forall>c\<in>set s. isSpace c \<Longrightarrow> ink s = []"
  by (simp add: ink_def)

lemma ink_flush: "ink (flushNewlines n) = []"
  by (simp add: ink_def flushNewlines_def isSpace_def)

lemma ink_collapseGo: "ink (collapseGo n s) = ink s"
proof (induction s arbitrary: n)
  case Nil
  show ?case by (simp add: ink_flush) (simp add: ink_def)
next
  case (Cons c s)
  show ?case
  proof (cases "c = 10")
    case True
    with Cons.IH [of "Suc n"] show ?thesis by (simp add: ink_def isSpace_def)
  next
    case False
    with Cons.IH [of 0] show ?thesis by (simp add: ink_append ink_flush) (simp add: ink_def)
  qed
qed

lemma ink_replaceNbsp: "ink (replaceNbsp s) = ink s"
  by (induction s) (auto simp add: ink_def replaceNbsp_def isSpace_def)

lemma ink_stripBeforeNewline: "ink (stripBeforeNewline s) = ink s"
proof (induction s rule: stripBeforeNewline.induct)
  case 1
  show ?case by simp
next
  case (2 c cs)
  show ?case
  proof (cases "isSpace c \<and> 10 \<in> set (takeWhile isSpace cs)")
    case True
    have "\<forall>x\<in>set (rev (takeWhile (\<lambda>x. x \<noteq> 10) (rev (takeWhile isSpace cs)))). isSpace x"
      by (auto dest!: set_takeWhileD)
    then have "ink (rev (takeWhile (\<lambda>x. x \<noteq> 10) (rev (takeWhile isSpace cs)))) = []"
      by (rule ink_spaces)
    moreover have "ink [10] = []" by (simp add: ink_def isSpace_def)
    moreover from True "2.IH"(1) have "ink (stripBeforeNewline (dropWhile isSpace cs)) = ink cs"
      by (simp add: ink_dropWhile)
    moreover from True have "ink (c # cs) = ink cs" by (simp add: ink_def)
    moreover from True have "stripBeforeNewline (c # cs) =
        [10] @ rev (takeWhile (\<lambda>x. x \<noteq> 10) (rev (takeWhile isSpace cs)))
          @ stripBeforeNewline (dropWhile isSpace cs)"
      by simp
    ultimately show ?thesis by (simp only: ink_append append_Nil)
  next
    case False
    with "2.IH"(2) show ?thesis by (auto simp add: ink_def)
  qed
qed

lemma ink_normalizeText: "ink (normalizeText s) = ink s"
  by (simp add: normalizeText_def collapseNewlines_def ink_trim ink_collapseGo
      ink_stripBeforeNewline ink_replaceNbsp)

lemma trim_hd: "js_trim s \<noteq> [] \<Longrightarrow> \<not> isSpace (last (js_trim s))"
proof -
  assume a: "js_trim s \<noteq> []"
  let ?r = "dropWhile isSpace (rev (dropWhile isSpace s))"
  from a have "?r \<noteq> []" by (simp add: js_trim_def)
  then have "\<not> isSpace (hd ?r)" by (rule hd_dropWhile)
  moreover from \<open>?r \<noteq> []\<close> have "last (js_trim s) = hd ?r"
    by (simp add: js_trim_def last_rev)
  ultimately show ?thesis by simp
qed

lemma inked_trim: "inked (js_trim s)"
proof (cases "js_trim s = []")
  case True
  then show ?thesis by (simp add: inked_def)
next
  case False
  then have "\<not> isSpace (last (js_trim s))" by (rule trim_hd)
  moreover from False have "last (js_trim s) \<in> set (js_trim s)" by simp
  ultimately have "ink (js_trim s) \<noteq> []"
    unfolding ink_def by (metis (mono_tags, lifting) filter_empty_conv)
  then show ?thesis by (simp add: inked_def)
qed

lemma inked_Nil: "inked []"
  by (simp add: inked_def)

lemma inked_collectText: "inked (collectText d c)"
  by (cases c) (simp_all add: collectText_def inked_trim inked_Nil)

lemma inked_scanLoop: "inked (bestText b) \<Longrightarrow> inked (bestText (scanLoop d els b))"
  by (induction els arbitrary: b) (simp_all add: Let_def inked_collectText)

lemma inked_largest: "inked (bestText (largestTextBlock d))"
  by (simp add: largestTextBlock_def inked_scanLoop inked_Nil)

lemma inked_redditShadow: "inked (snd held) \<Longrightarrow> inked (snd (redditShadow d held))"
  by (cases held) (auto simp add: redditShadow_def Let_def inked_collectText split: option.splits)

lemma inked_redditLegacy:
  "inked (snd held) \<Longrightarrow> redditLegacy d held = Inr held' \<Longrightarrow> inked (snd held')"
  by (cases held)
     (auto simp add: redditLegacy_def Let_def inked_collectText split: option.splits if_splits)

lemma inked_extractReddit: "extractReddit d = Inr r \<Longrightarrow> inked (r_text r)"
proof -
  assume a: "extractReddit d = Inr r"
  let ?title = "if h1Text d Document \<noteq> [] then h1Text d Document
                   else js_trim (stripRedditSuffix (docTitle d))"
  let ?txt = \<open>case (case querySelector d Document ''[data-test-id="post-content"]'' of
                           Some n \<Rightarrow> Some n
                         | None \<Rightarrow> querySelector d Document ''[data-click-id="text"]'') of
               None \<Rightarrow> [] | Some n \<Rightarrow> collectText d (Some n)\<close>
  have "inked ?txt" by (simp add: inked_collectText inked_Nil split: option.splits)
  then have s: "inked (snd (redditShadow d (?title, ?txt)))"
    using inked_redditShadow [of "(?title, ?txt)" d] by simp
  from a obtain title' txt' where l: "redditLegacy d (redditShadow d (?title, ?txt)) = Inr (title', txt')"
    by (auto simp add: extractReddit_def Let_def split: sum.splits)
  with s have "inked txt'" using inked_redditLegacy by fastforce
  with a l show ?thesis
    by (auto simp add: extractReddit_def Let_def inked_collectText split: if_splits)
qed

lemma gather_errors: "snd (gather d) = Inl err \<Longrightarrow> err = TypeError"
  by (auto simp add: gather_def siteStep_def extractReddit_def redditLegacy_def Let_def
      split: prod.splits sum.splits if_splits option.splits)

lemma inked_gather: "snd (gather d) = Inr (title, held) \<Longrightarrow> inked held"
proof -
  assume a: "snd (gather d) = Inr (title, held)"
  then obtain t0 x0 where s: "snd (siteStep d) = Inr (t0, x0)"
    by (auto simp add: gather_def split: prod.splits sum.splits)
  have i0: "inked x0"
    using s by (auto simp add: siteStep_def inked_Nil inked_extractReddit split: if_splits sum.splits)
  have i1: "inked (snd (scanStep d x0))"
    using i0 by (simp add: scanStep_def Let_def inked_largest inked_Nil)
  have i2: "inked (snd (snd (readabilityStep d (t, snd (scanStep d x0)))))" for t
    using i1 by (auto simp add: readabilityStep_def Let_def inked_trim
        split: readability_outcome.splits option.splits)
  from a s have "held = snd (snd (readabilityStep d (t0, snd (scanStep d x0))))"
    by (auto simp add: gather_def split: prod.splits sum.splits)
  with i2 show ?thesis by simp
qed

text \<open>
  A page on which only Readability finds a text, and a short one.
\<close>

definition shortPage :: dom where
  "shortPage = blankPage\<lparr>readability := Article (Some (ustr ''Note'')) (Some (ustr ''Too short.''))\<rparr>"

definition offline :: "request \<Rightarrow> fetch_outcome" where
  "offline q = NetworkError"

lemma trim_short: "js_trim (ustr ''Too short.'') = ustr ''Too short.''" "js_trim (ustr ''Note'') = ustr ''Note''"
  by (simp_all add: js_trim_def ustr_def isSpace_def)

lemma normalize_short: "normalizeText (ustr ''Too short.'') = ustr ''Too short.''"
  by (simp add: normalizeText_def replaceNbsp_def collapseNewlines_def flushNewlines_def
      js_trim_def ustr_def isSpace_def)

lemma gather_short:
  "gather shortPage = ([CandidateScanner, ReadabilityFallback], Inr (ustr ''Note'', ustr ''Too short.''))"
proof -
  have s: "siteStep shortPage = ([], Inr ([], []))"
    by (simp add: siteStep_def shortPage_def blankPage_def endsWith_def suffix_to_prefix ustr_def)
  have c: "scanStep shortPage [] = ([CandidateScanner], [])"
    by (simp add: scanStep_def shortPage_def largest_blank)
  have r: "readabilityStep shortPage ([], []) =
      ([ReadabilityFallback], ustr ''Note'', ustr ''Too short.'')"
    unfolding readabilityStep_def shortPage_def
    by (simp add: firstTitle_def trim_short) (simp add: ustr_def)
  show ?thesis by (simp add: gather_def s c r)
qed

lemma extract_short:
  "extractArticleText quietEnv shortPage =
     ([SettleDelay 300, ExpandCollapsers, CandidateScanner, ReadabilityFallback],
      Inr \<lparr>r_title = ustr ''Note'', r_text = ustr ''Too short.''\<rparr>)"
proof -
  have p: "prepare quietEnv shortPage = shortPage"
    by (simp add: shortPage_def prepare_quiet_blank)
  have f: "finish shortPage (ustr ''Note'', ustr ''Too short.'') =
      Inr \<lparr>r_title = ustr ''Note'', r_text = ustr ''Too short.''\<rparr>"
    unfolding finish_def by (simp add: normalize_short) (simp add: ustr_def)
  show ?thesis
    by (simp add: prod_eq_iff extractArticleText_trace extractArticleText_result p gather_short f)
qed

text \<open>
  A Reddit page with an empty document title and no heading, whose first \<open>a.title\<close> is
  an element without \<open>innerText\<close> (a link inside an SVG image): the Reddit extractor
  throws.
\<close>

definition bareLink :: dom where
  "bareLink =
     blankPage
       \<lparr>hostname := ustr ''www.reddit.com'',
        docTitle := [],
        querySelectorAll := (\<lambda>root sel.
           if root = Document \<and> sel = ''a.title'' then [Element 30] else [])\<rparr>"

lemma prepare_bareLink: "prepare quietEnv bareLink = bareLink"
  by (simp add: prepare_def quietEnv_def bareLink_def blankPage_def expandCollapsers_def)

lemma extract_bareLink: "extractReddit bareLink = Inl TypeError"
proof -
  have q: "querySelector bareLink Document ''a.title'' = Some (Element 30)"
    "\<And>sel. sel \<noteq> ''a.title'' \<Longrightarrow> querySelector bareLink Document sel = None"
    by (simp_all add: querySelector_def bareLink_def)
  have t: "docTitle bareLink = []" "innerText bareLink (Element 30) = None"
    "customElements bareLink = False"
    by (simp_all add: bareLink_def blankPage_def)
  have e: "js_trim [] = []" by (simp add: js_trim_def)
  show ?thesis
    unfolding extractReddit_def Let_def h1Text_def
    by (simp add: q t e redditShadow_def redditLegacy_def)
qed

lemma gather_bareLink: "gather bareLink = ([SiteExtractor], Inl TypeError)"
proof -
  have "endsWith (hostname bareLink) (ustr ''reddit.com'')"
    by (simp add: bareLink_def endsWith_def suffix_to_prefix ustr_def)
  then show ?thesis by (simp add: gather_def siteStep_def extract_bareLink)
qed

text \<open>
  Claim C4. Whenever the chain ends holding a text, \<open>extractArticleText\<close> fails with
  \<open>ExtractionFailed\<close> exactly when the normalization of that text is empty, and otherwise
  returns the normalized text; the chain itself can only fail with the \<open>TypeError\<close> of
  the Reddit extractor, which is passed on; and the text of every result returned is
  not empty. (The source tests the text before normalizing it; the two tests agree.)
\<close>

theorem extraction_fails_iff_empty:
  "(\<forall>title held. snd (gather (prepare e d)) = Inr (title, held) \<longrightarrow>
      (snd (extractArticleText e d) = Inl ExtractionFailed) = (normalizeText held = []) \<and>
      (normalizeText held \<noteq> [] \<longrightarrow>
         (\<exists>t. snd (extractArticleText e d) = Inr \<lparr>r_title = t, r_text = normalizeText held\<rparr>))) \<and>
   (\<forall>err. snd (gather (prepare e d)) = Inl err \<longrightarrow>
      err = TypeError \<and> snd (extractArticleText e d) = Inl TypeError) \<and>
   (\<forall>r. snd (extractArticleText e d) = Inr r \<longrightarrow> r_text r \<noteq> [])"
proof -
  have key: "(normalizeText held = []) = (held = [])" if "inked held" for held
  proof
    assume "normalizeText held = []"
    then have "ink (normalizeText held) = []" by (simp add: ink_def)
    then have "ink held = []" by (simp add: ink_normalizeText)
    with that show "held = []" by (simp add: inked_def)
  next
    assume "held = []"
    then show "normalizeText held = []"
      by (simp add: normalizeText_def replaceNbsp_def collapseNewlines_def flushNewlines_def
          js_trim_def)
  qed
  show ?thesis
  proof (intro conjI allI impI)
    fix title held assume g: "snd (gather (prepare e d)) = Inr (title, held)"
    then have "inked held" by (rule inked_gather)
    then have k: "(normalizeText held = []) = (held = [])" by (rule key)
    from g show "(snd (extractArticleText e d) = Inl ExtractionFailed) = (normalizeText held = [])"
      by (simp add: extractArticleText_result finish_def k)
    assume "normalizeText held \<noteq> []"
    with k g show "\<exists>t. snd (extractArticleText e d) = Inr \<lparr>r_title = t, r_text = normalizeText held\<rparr>"
      by (simp add: extractArticleText_result finish_def)
  next
    fix err assume g: "snd (gather (prepare e d)) = Inl err"
    then show "err = TypeError" by (rule gather_errors)
    with g show "snd (extractArticleText e d) = Inl TypeError"
      by (simp add: extractArticleText_result)
  next
    fix r assume r: "snd (extractArticleText e d) = Inr r"
    then obtain title held where g: "snd (gather (prepare e d)) = Inr (title, held)"
      by (auto simp add: extractArticleText_result split: sum.splits)
    then have "inked held" by (rule inked_gather)
    then have k: "(normalizeText held = []) = (held = [])" by (rule key)
    from r g have "held \<noteq> [] \<and> r_text r = normalizeText held"
      by (auto simp add: extractArticleText_result finish_def split: if_splits)
    with k show "r_text r \<noteq> []" by simp
  qed
qed

text \<open>
  The theorem on the page where the Reddit extractor throws, on the blank page, which
  fails, and on the short page, which does not.
\<close>

theorem extraction_fails_iff_empty_witness:
  "snd (gather (prepare quietEnv bareLink)) = Inl TypeError \<and>
   snd (extractArticleText quietEnv bareLink) = Inl TypeError \<and>
   snd (gather (prepare quietEnv blankPage)) = Inr ([], []) \<and>
   normalizeText [] = [] \<and>
   snd (extractArticleText quietEnv blankPage) = Inl ExtractionFailed \<and>
   snd (gather (prepare quietEnv shortPage)) = Inr (ustr ''Note'', ustr ''Too short.'') \<and>
   normalizeText (ustr ''Too short.'') = ustr ''Too short.'' \<and>
   snd (extractArticleText quietEnv shortPage) \<noteq> Inl ExtractionFailed \<and>
   snd (extractArticleText quietEnv shortPage) =
     Inr \<lparr>r_title = ustr ''Note'', r_text = ustr ''Too short.''\<rparr>"
proof -
  have b: "blankPage\<lparr>readability := ReadabilityNull\<rparr> = blankPage"
    by (simp add: blankPage_def)
  have g: "snd (gather (prepare quietEnv blankPage)) = Inr ([], [])"
    using prepare_quiet_blank [of ReadabilityNull] gather_blank by (simp add: b)
  have n: "normalizeText [] = []"
    by (simp add: normalizeText_def replaceNbsp_def collapseNewlines_def flushNewlines_def
        js_trim_def)
  have s: "snd (gather (prepare quietEnv shortPage)) = Inr (ustr ''Note'', ustr ''Too short.'')"
    by (simp add: shortPage_def prepare_quiet_blank) (simp add: gather_short [unfolded shortPage_def])
  have ne: "normalizeText (ustr ''Too short.'') \<noteq> []"
    by (simp add: normalize_short) (simp add: ustr_def)
  have t: "snd (gather (prepare quietEnv bareLink)) = Inl TypeError"
    by (simp add: prepare_bareLink gather_bareLink)
  from extraction_fails_iff_empty [of quietEnv bareLink] t
  have 0: "snd (extractArticleText quietEnv bareLink) = Inl TypeError" by blast
  from extraction_fails_iff_empty [of quietEnv blankPage] g n
  have 1: "snd (extractArticleText quietEnv blankPage) = Inl ExtractionFailed" by blast
  from extraction_fails_iff_empty [of quietEnv shortPage] s ne
  have 2: "snd (extractArticleText quietEnv shortPage) \<noteq> Inl ExtractionFailed" by blast
  from 0 1 2 t g n s show ?thesis by (simp add: normalize_short extract_short)
qed

section \<open>Properties of the activation handlers\<close>

lemma tryBody_short:
  assumes "snd (extractArticleText e d) = Inr r" "length (r_text r) < 80"
  shows "tryBody e backend d = (fst (extractArticleText e d), Inl TooShortToSummarize)"
  using assms by (cases "extractArticleText e d") (simp add: tryBody_def)

lemma tryBody3_short:
  assumes "snd (extractArticleText3 e d) = Inr r" "length (r_text r) < 80"
  shows "tryBody3 e backend d = (fst (extractArticleText3 e d), Inl TooShortToSummarize)"
  using assms by (cases "extractArticleText3 e d") (simp add: tryBody3_def)

lemma tryBody2_short:
  assumes "length (r_text (snd (extractSimple d))) < 80"
  shows "tryBody2 backend d = (fst (extractSimple d), Inl TooShortToSummarize)"
  using assms by (cases "extractSimple d") (simp add: tryBody2_def)

lemma extractArticleText3_no_fetch: "Fetch q \<notin> set (fst (extractArticleText3 e d))"
  by (simp add: extractArticleText3_def Let_def)

lemma extractSimple_no_fetch: "Fetch q \<notin> set (fst (extractSimple d))"
  by (simp add: extractSimple_def Let_def)

lemma present_error:
  "body (snd (present showOverlay (tr, Inl err))) = ErrorText err"
  "body (snd (present showOverlay2 (tr, Inl err))) = ErrorText err"
  by (simp_all add: present_def showOverlay_def showOverlay2_def)

text \<open>
  Claim C8. In each of the three scripts, when the extraction succeeds with a text shorter
  than 80 code units, the \<open>try\<close> block ends with \<open>TooShortToSummarize\<close>, the activation
  sends no request to the backend, and the handler shows the error in the overlay.
\<close>

theorem too_short_is_not_sent:
  "(\<forall>r. snd (extractArticleText e d) = Inr r \<and> length (r_text r) < 80 \<longrightarrow>
      snd (tryBody e backend d) = Inl TooShortToSummarize \<and>
      (\<forall>q. Fetch q \<notin> set (fst (tryBody e backend d))) \<and>
      body (snd (onTldrClick e backend d)) = ErrorText TooShortToSummarize) \<and>
   (\<forall>r. snd (extractArticleText3 e d) = Inr r \<and> length (r_text r) < 80 \<longrightarrow>
      snd (tryBody3 e backend d) = Inl TooShortToSummarize \<and>
      (\<forall>q. Fetch q \<notin> set (fst (tryBody3 e backend d))) \<and>
      body (snd (onTldrClick3 e backend d)) = ErrorText TooShortToSummarize) \<and>
   (length (r_text (snd (extractSimple d))) < 80 \<longrightarrow>
      snd (tryBody2 backend d) = Inl TooShortToSummarize \<and>
      (\<forall>q. Fetch q \<notin> set (fst (tryBody2 backend d))) \<and>
      body (snd (onTldrClick2 backend d)) = ErrorText TooShortToSummarize)"
proof (intro conjI allI impI)
  fix r assume "snd (extractArticleText e d) = Inr r \<and> length (r_text r) < 80"
  then have t: "tryBody e backend d = (fst (extractArticleText e d), Inl TooShortToSummarize)"
    by (simp add: tryBody_short)
  show "snd (tryBody e backend d) = Inl TooShortToSummarize" by (simp add: t)
  show "body (snd (onTldrClick e backend d)) = ErrorText TooShortToSummarize"
    by (simp add: onTldrClick_def t present_error)
  fix q show "Fetch q \<notin> set (fst (tryBody e backend d))"
    by (simp add: t extractArticleText_no_fetch)
next
  fix r assume "snd (extractArticleText3 e d) = Inr r \<and> length (r_text r) < 80"
  then have t: "tryBody3 e backend d = (fst (extractArticleText3 e d), Inl TooShortToSummarize)"
    by (simp add: tryBody3_short)
  show "snd (tryBody3 e backend d) = Inl TooShortToSummarize" by (simp add: t)
  show "body (snd (onTldrClick3 e backend d)) = ErrorText TooShortToSummarize"
    by (simp add: onTldrClick3_def t present_error)
  fix q show "Fetch q \<notin> set (fst (tryBody3 e backend d))"
    by (simp add: t extractArticleText3_no_fetch)
next
  assume "length (r_text (snd (extractSimple d))) < 80"
  then have t: "tryBody2 backend d = (fst (extractSimple d), Inl TooShortToSummarize)"
    by (rule tryBody2_short)
  show "snd (tryBody2 backend d) = Inl TooShortToSummarize" by (simp add: t)
  show "body (snd (onTldrClick2 backend d)) = ErrorText TooShortToSummarize"
    by (simp add: onTldrClick2_def t present_error)
  fix q show "Fetch q \<notin> set (fst (tryBody2 backend d))"
    by (simp add: t extractSimple_no_fetch)
qed

text \<open>The theorem on the short page, with a backend that is never reached.\<close>

theorem too_short_is_not_sent_witness:
  "snd (extractArticleText quietEnv shortPage) = Inr \<lparr>r_title = ustr ''Note'', r_text = ustr ''Too short.''\<rparr> \<and>
   length (ustr ''Too short.'') = 10 \<and>
   tryBody quietEnv offline shortPage =
     ([SettleDelay 300, ExpandCollapsers, CandidateScanner, ReadabilityFallback], Inl TooShortToSummarize) \<and>
   body (snd (onTldrClick quietEnv offline shortPage)) = ErrorText TooShortToSummarize \<and>
   snd (tryBody3 quietEnv offline shortPage) = Inl TooShortToSummarize \<and>
   snd (tryBody2 offline shortPage) = Inl TooShortToSummarize"
proof -
  have a: "snd (extractArticleText quietEnv shortPage) =
      Inr \<lparr>r_title = ustr ''Note'', r_text = ustr ''Too short.''\<rparr> \<and>
      length (r_text \<lparr>r_title = ustr ''Note'', r_text = ustr ''Too short.''\<rparr>) < 80"
    by (simp add: extract_short) (simp add: ustr_def)
  have b: "snd (extractArticleText3 quietEnv shortPage) =
      Inr \<lparr>r_title = ustr ''Note'', r_text = ustr ''Too short.''\<rparr> \<and>
      length (r_text \<lparr>r_title = ustr ''Note'', r_text = ustr ''Too short.''\<rparr>) < 80"
    unfolding extractArticleText3_def shortPage_def quietEnv_def
    by (simp add: firstTitle_def trim_short) (simp add: ustr_def)
  have c: "length (r_text (snd (extractSimple shortPage))) < 80"
    unfolding extractSimple_def shortPage_def
    by (simp add: trim_short) (simp add: ustr_def)
  have l: "length (ustr ''Too short.'') = 10" by (simp add: ustr_def)
  from too_short_is_not_sent [of quietEnv shortPage offline] a b c
  have "snd (tryBody quietEnv offline shortPage) = Inl TooShortToSummarize \<and>
        body (snd (onTldrClick quietEnv offline shortPage)) = ErrorText TooShortToSummarize \<and>
        snd (tryBody3 quietEnv offline shortPage) = Inl TooShortToSummarize \<and>
        snd (tryBody2 offline shortPage) = Inl TooShortToSummarize"
    by blast
  moreover from a have "fst (tryBody quietEnv offline shortPage) =
      [SettleDelay 300, ExpandCollapsers, CandidateScanner, ReadabilityFallback]"
    by (simp add: tryBody_short extract_short)
  ultimately show ?thesis using a l by (simp add: prod_eq_iff)
qed

section \<open>Properties of the summarization client\<close>

text \<open>\<open>await resp.text().catch(() => "")\<close>: the body, or the empty string when it cannot be read.\<close>

definition errText :: "response \<Rightarrow> js_string" where
  "errText resp = (case bodyText resp of None \<Rightarrow> [] | Some t \<Rightarrow> t)"

lemma readSummary_not_ok:
  "\<not> ok resp \<Longrightarrow> readSummary (Responded resp) = Inl (BackendError (status resp) (errText resp))"
  by (simp add: readSummary_def errText_def)

lemma readSummaryOrEmpty_not_ok:
  "\<not> ok resp \<Longrightarrow>
   readSummaryOrEmpty (Responded resp) = Inl (BackendError (status resp) (errText resp))"
  by (simp add: readSummaryOrEmpty_def errText_def)

lemma readSummary_no_field:
  "ok resp \<Longrightarrow> bodyJson resp = Some data \<Longrightarrow> getSummary data = Inr None \<Longrightarrow>
   readSummary (Responded resp) = Inl MalformedResponse"
  by (simp add: readSummary_def)

lemma readSummaryOrEmpty_no_field:
  "ok resp \<Longrightarrow> bodyJson resp = Some data \<Longrightarrow> getSummary data = Inr None \<Longrightarrow>
   readSummaryOrEmpty (Responded resp) = Inr (JStr [])"
  by (simp add: readSummaryOrEmpty_def)

lemma readSummary_field:
  "ok resp \<Longrightarrow> bodyJson resp = Some data \<Longrightarrow> getSummary data = Inr (Some v) \<Longrightarrow>
   truthy (Some v) \<Longrightarrow> readSummary (Responded resp) = Inr v"
  by (simp add: readSummary_def)

lemma readSummaryOrEmpty_field:
  "ok resp \<Longrightarrow> bodyJson resp = Some data \<Longrightarrow> getSummary data = Inr (Some v) \<Longrightarrow>
   truthy (Some v) \<Longrightarrow> readSummaryOrEmpty (Responded resp) = Inr v"
  by (simp add: readSummaryOrEmpty_def)

lemma readSummary_Inr:
  "readSummary outcome = Inr v \<Longrightarrow>
   \<exists>resp data. outcome = Responded resp \<and> ok resp \<and> bodyJson resp = Some data \<and>
      getSummary data = Inr (Some v) \<and> truthy (Some v)"
  by (auto simp add: readSummary_def split: fetch_outcome.splits if_splits option.splits sum.splits)

text \<open>
  Four responses of the backend: status 200 with the body \<open>{}\<close>, status 200 with the
  body \<open>null\<close>, status 500 with a text body, and status 200 with a summary.
\<close>

definition emptyObject :: response where
  "emptyObject = \<lparr>status = 200, bodyText = Some (ustr ''{}''), bodyJson = Some (JObj [])\<rparr>"

definition nullBody :: response where
  "nullBody = \<lparr>status = 200, bodyText = Some (ustr ''null''), bodyJson = Some JNull\<rparr>"

definition serverError :: response where
  "serverError = \<lparr>status = 500, bodyText = Some (ustr ''boom''), bodyJson = None\<rparr>"

definition goodBody :: response where
  "goodBody = \<lparr>status = 200, bodyText = None,
                bodyJson = Some (JObj [(ustr ''summary'', JStr (ustr ''short''))])\<rparr>"

text \<open>
  Claim C3 as stated fails for the client of the second script in content.js, which
  answers a 2xx response without a summary field with the empty string instead of
  failing; and in the first script a 2xx response whose JSON is \<open>null\<close> fails with the
  \<open>TypeError\<close> of the property read, not with \<open>MalformedResponse\<close>.
\<close>

theorem summarizeText_counterexample:
  "ok emptyObject \<and> bodyJson emptyObject = Some (JObj []) \<and>
   map_of [] (ustr ''summary'') = (None :: json option) \<and>
   snd (summarizeText2 (\<lambda>q. Responded emptyObject) (ustr ''article'')) = Inr (JStr []) \<and>
   ok nullBody \<and> bodyJson nullBody = Some JNull \<and>
   snd (summarizeText (\<lambda>q. Responded nullBody) (ustr ''article'')) = Inl TypeError"
  by (simp add: ok_def emptyObject_def nullBody_def summarizeText_def summarizeText2_def
      readSummary_def readSummaryOrEmpty_def getSummary_def)

text \<open>
  Claim C3, amended. In all three scripts a response whose status is not in 200 to 299
  makes the client fail with \<open>BackendError\<close> carrying the status and the body text (empty
  when it cannot be read). A 2xx response whose JSON is not \<open>null\<close> and has no summary
  field makes the client of the first and of the third script fail with
  \<open>MalformedResponse\<close>, and makes the client of the second script return the empty
  string. A 2xx response with a truthy summary field makes every client return that
  field, and the clients of the first and third script return nothing else.
\<close>

theorem summarizeText_contract:
  "(\<not> ok resp \<longrightarrow>
      snd (summarizeText (\<lambda>q. Responded resp) tx) = Inl (BackendError (status resp) (errText resp)) \<and>
      snd (summarizeText2 (\<lambda>q. Responded resp) tx) = Inl (BackendError (status resp) (errText resp)) \<and>
      snd (summarizeText3 (\<lambda>q. Responded resp) tx level) = Inl (BackendError (status resp) (errText resp))) \<and>
   (ok resp \<and> bodyJson resp = Some data \<and> getSummary data = Inr None \<longrightarrow>
      snd (summarizeText (\<lambda>q. Responded resp) tx) = Inl MalformedResponse \<and>
      snd (summarizeText3 (\<lambda>q. Responded resp) tx level) = Inl MalformedResponse \<and>
      snd (summarizeText2 (\<lambda>q. Responded resp) tx) = Inr (JStr [])) \<and>
   (ok resp \<and> bodyJson resp = Some data \<and> getSummary data = Inr (Some v) \<and> truthy (Some v) \<longrightarrow>
      snd (summarizeText (\<lambda>q. Responded resp) tx) = Inr v \<and>
      snd (summarizeText2 (\<lambda>q. Responded resp) tx) = Inr v \<and>
      snd (summarizeText3 (\<lambda>q. Responded resp) tx level) = Inr v) \<and>
   (snd (summarizeText (\<lambda>q. outcome) tx) = Inr x \<or>
    snd (summarizeText3 (\<lambda>q. outcome) tx level) = Inr x \<longrightarrow>
      (\<exists>r j. outcome = Responded r \<and> ok r \<and> bodyJson r = Some j \<and>
             getSummary j = Inr (Some x) \<and> truthy (Some x)))"
proof (intro conjI impI)
  assume "snd (summarizeText (\<lambda>q. outcome) tx) = Inr x \<or>
    snd (summarizeText3 (\<lambda>q. outcome) tx level) = Inr x"
  then have "readSummary outcome = Inr x"
    by (auto simp add: summarizeText_def summarizeText3_def Let_def)
  then show "\<exists>r j. outcome = Responded r \<and> ok r \<and> bodyJson r = Some j \<and>
             getSummary j = Inr (Some x) \<and> truthy (Some x)"
    by (rule readSummary_Inr)
qed (simp_all add: summarizeText_def summarizeText2_def summarizeText3_def
      readSummary_not_ok readSummaryOrEmpty_not_ok readSummary_no_field
      readSummaryOrEmpty_no_field readSummary_field readSummaryOrEmpty_field)

text \<open>The theorem on the three responses that meet its hypotheses.\<close>

theorem summarizeText_contract_witness:
  "snd (summarizeText (\<lambda>q. Responded serverError) (ustr ''article'')) =
     Inl (BackendError 500 (ustr ''boom'')) \<and>
   snd (summarizeText (\<lambda>q. Responded emptyObject) (ustr ''article'')) = Inl MalformedResponse \<and>
   snd (summarizeText2 (\<lambda>q. Responded emptyObject) (ustr ''article'')) = Inr (JStr []) \<and>
   snd (summarizeText (\<lambda>q. Responded goodBody) (ustr ''article'')) = Inr (JStr (ustr ''short'')) \<and>
   truthy (Some (JStr (ustr ''short'')))"
proof -
  have a: "\<not> ok serverError" by (simp add: ok_def serverError_def)
  have b: "ok emptyObject \<and> bodyJson emptyObject = Some (JObj []) \<and> getSummary (JObj []) = Inr None"
    by (simp add: ok_def emptyObject_def getSummary_def)
  have c: "ok goodBody \<and>
           bodyJson goodBody = Some (JObj [(ustr ''summary'', JStr (ustr ''short''))]) \<and>
           getSummary (JObj [(ustr ''summary'', JStr (ustr ''short''))]) = Inr (Some (JStr (ustr ''short''))) \<and>
           truthy (Some (JStr (ustr ''short'')))"
    by (simp add: ok_def goodBody_def getSummary_def truthy_def ustr_def)
  from summarizeText_contract [where resp = serverError and tx = "ustr ''article''"] a
  have 1: "snd (summarizeText (\<lambda>q. Responded serverError) (ustr ''article'')) =
     Inl (BackendError 500 (ustr ''boom''))"
    by (simp add: serverError_def errText_def)
  from summarizeText_contract [where resp = emptyObject and data = "JObj []" and tx = "ustr ''article''"] b
  have 2: "snd (summarizeText (\<lambda>q. Responded emptyObject) (ustr ''article'')) = Inl MalformedResponse"
    "snd (summarizeText2 (\<lambda>q. Responded emptyObject) (ustr ''article'')) = Inr (JStr [])"
    by simp_all
  from summarizeText_contract [where resp = goodBody and tx = "ustr ''article''"
      and data = "JObj [(ustr ''summary'', JStr (ustr ''short''))]" and v = "JStr (ustr ''short'')"] c
  have 3: "snd (summarizeText (\<lambda>q. Responded goodBody) (ustr ''article'')) = Inr (JStr (ustr ''short''))"
    by simp
  from summarizeText_contract [where outcome = "Responded goodBody" and tx = "ustr ''article''"
      and x = "JStr (ustr ''short'')"] 3
  have 4: "truthy (Some (JStr (ustr ''short'')))" by blast
  from 1 2 3 4 show ?thesis by simp
qed

section \<open>Properties of the placement engine\<close>

text \<open>
  The positions the search writes and tests, in its order: the four corners (bottom
  right, bottom left, top right, top left), then right 16 with the bottom offset 116,
  216, 316, 416 and 516.
\<close>

definition slideStyle :: "int \<Rightarrow> hostStyle" where
  "slideStyle b = \<lparr>s_right = Px 16, s_left = Auto, s_bottom = Px b, s_top = Auto\<rparr>"

definition searchOrder :: "hostStyle list" where
  "searchOrder =
     [\<lparr>s_right = Px 16, s_left = Auto, s_bottom = Px 16, s_top = Auto\<rparr>,
      \<lparr>s_right = Auto, s_left = Px 16, s_bottom = Px 16, s_top = Auto\<rparr>,
      \<lparr>s_right = Px 16, s_left = Auto, s_bottom = Auto, s_top = Px 16\<rparr>,
      \<lparr>s_right = Auto, s_left = Px 16, s_bottom = Auto, s_top = Px 16\<rparr>,
      slideStyle 116, slideStyle 216, slideStyle 316, slideStyle 416, slideStyle 516]"

definition firstPassing :: "(hostStyle \<Rightarrow> bool) \<Rightarrow> hostStyle" where
  "firstPassing hit = (case find hit searchOrder of Some p \<Rightarrow> p | None \<Rightarrow> slideStyle 516)"

lemma applyCorner_all:
  "applyCorner c s = \<lparr>s_right = px (c_right c), s_left = px (c_left c),
                      s_bottom = px (c_bottom c), s_top = px (c_top c)\<rparr>"
  by (simp add: applyCorner_def)

lemma slide_all:
  "s\<lparr>s_right := Px 16, s_left := Auto, s_bottom := Px b, s_top := Auto\<rparr> = slideStyle b"
  by (simp add: slideStyle_def)

lemma ensureVisible_firstPassing: "ensureVisible hit s = firstPassing hit"
  by (simp add: ensureVisible_def firstPassing_def corners_def searchOrder_def
      applyCorner_all px_def slide_all Let_def numeral_eq_Suc)

lemma searchOrder_corners:
  "searchOrder = map (\<lambda>c. applyCorner c s) corners
                 @ map (\<lambda>i. slideStyle (16 + 100 * i)) [1, 2, 3, 4, 5]"
  by (simp add: searchOrder_def corners_def applyCorner_all px_def)

text \<open>
  Claim C9. The positions of the search are the four corners of the table in its order
  followed by the five positions that slide up from the bottom right corner in steps of
  100, and \<open>ensureVisible\<close> ends at the first of them whose hit test passes; when none
  passes it ends at the last one, right 16 and bottom 516. It is a total function: no
  path throws.
\<close>

theorem ensureVisible_search:
  "searchOrder = map (\<lambda>c. applyCorner c s) corners
                 @ map (\<lambda>i. slideStyle (16 + 100 * i)) [1, 2, 3, 4, 5] \<and>
   ensureVisible hit s =
     (case find hit searchOrder of Some p \<Rightarrow> p | None \<Rightarrow> last searchOrder)"
proof
  show "searchOrder = map (\<lambda>c. applyCorner c s) corners
                 @ map (\<lambda>i. slideStyle (16 + 100 * i)) [1, 2, 3, 4, 5]"
    by (rule searchOrder_corners)
  have "last searchOrder = slideStyle 516" by (simp add: searchOrder_def)
  then show "ensureVisible hit s =
     (case find hit searchOrder of Some p \<Rightarrow> p | None \<Rightarrow> last searchOrder)"
    by (simp add: ensureVisible_firstPassing firstPassing_def split: option.split)
qed

text \<open>
  A user drag from the bottom right corner, 200 to the left and 300 up, on a page where
  the control is clickable everywhere.
\<close>

definition placed :: hostStyle where
  "placed = \<lparr>s_right = Px 16, s_left = Auto, s_bottom = Px 16, s_top = Auto\<rparr>"

definition dragged :: hostStyle where
  "dragged = onDrag (mousedown (500, 500) placed) (300, 200) placed"

lemma dragged_eq: "dragged = \<lparr>s_right = Px 216, s_left = Auto, s_bottom = Px 316, s_top = Auto\<rparr>"
  by (simp add: dragged_def onDrag_def mousedown_def placed_def parsePx_def)

definition clearPage :: "hostStyle \<Rightarrow> bool" where
  "clearPage p = True"

text \<open>
  Claim C2. After a drag, the pointer-up and every later signal should first test the
  position the user chose and keep it when it is clickable; the source's own comment on
  the handlers is \<open>Drag to reposition\<close>. The code does otherwise: \<open>onUp\<close> calls
  \<open>ensureVisible\<close>, which writes the first corner over the dragged offsets before any hit
  test. Here the dragged position is clickable, and the pointer-up puts the control back
  at the bottom right corner.
\<close>

theorem drag_is_undone:
  "dragged = \<lparr>s_right = Px 216, s_left = Auto, s_bottom = Px 316, s_top = Auto\<rparr> \<and>
   clearPage dragged \<and>
   snd (onUp clearPage (mousedown (500, 500) placed) dragged) = placed \<and>
   ensureVisible clearPage dragged = placed \<and>
   placed \<noteq> dragged"
  by (simp add: dragged_eq onUp_def ensureVisible_firstPassing firstPassing_def searchOrder_def
      placed_def clearPage_def)

section \<open>Properties of the HTML escaping\<close>

lemma escapeChar_cases:
  "escapeChar c = [c] \<and> c \<notin> {38, 60, 62, 34, 39} \<or>
   escapeChar c \<in> set entities \<and> (\<exists>r. escapeChar c = 38 # r \<and> 38 \<notin> set r)"
  by (simp add: escapeChar_def entities_def ustr_def)

lemma escapeChar_no_raw: "x \<in> set (escapeChar c) \<Longrightarrow> x \<notin> {60, 62, 34, 39}"
  by (auto simp add: escapeChar_def ustr_def split: if_splits)

lemma escapeHtml_Cons: "escapeHtml (c # s) = escapeChar c @ escapeHtml s"
  by (simp add: escapeHtml_def)

lemma amp_starts_entity:
  "escapeHtml s = pre @ 38 # post \<Longrightarrow> \<exists>e\<in>set entities. prefix e (38 # post)"
proof (induction s arbitrary: pre)
  case Nil
  then show ?case by (simp add: escapeHtml_def)
next
  case (Cons c s)
  from Cons.prems have eq: "escapeChar c @ escapeHtml s = pre @ 38 # post"
    by (simp add: escapeHtml_Cons)
  then obtain u where
    u: "(escapeChar c = pre @ u \<and> u @ escapeHtml s = 38 # post) \<or>
        (escapeChar c @ u = pre \<and> escapeHtml s = u @ 38 # post)"
    by (auto simp add: append_eq_append_conv2)
  show ?case
  proof (cases "escapeChar c @ u = pre \<and> escapeHtml s = u @ 38 # post")
    case True
    then show ?thesis using Cons.IH [of u] by simp
  next
    case False
    with u have a: "escapeChar c = pre @ u" and b: "u @ escapeHtml s = 38 # post" by auto
    show ?thesis
    proof (cases u)
      case Nil
      with b have "escapeHtml s = [] @ 38 # post" by simp
      then show ?thesis by (rule Cons.IH)
    next
      case (Cons x u')
      with b have x: "x = 38" and post: "post = u' @ escapeHtml s" by auto
      from escapeChar_cases [of c] show ?thesis
      proof
        assume "escapeChar c = [c] \<and> c \<notin> {38, 60, 62, 34, 39}"
        with a Cons x show ?thesis by (auto simp add: append_eq_Cons_conv Cons_eq_append_conv)
      next
        assume h: "escapeChar c \<in> set entities \<and> (\<exists>r. escapeChar c = 38 # r \<and> 38 \<notin> set r)"
        then obtain r where r: "escapeChar c = 38 # r" "38 \<notin> set r" by auto
        with a Cons x have "pre = []" by (cases pre) auto
        with a Cons x post have "38 # post = escapeChar c @ escapeHtml s" by simp
        then have "prefix (escapeChar c) (38 # post)" by simp
        with h show ?thesis by blast
      qed
    qed
  qed
qed

text \<open>
  Claim C10. For every input string, the result of \<open>escapeHtml\<close> holds none of the raw
  characters less-than, greater-than, double quote and single quote, and at every position
  of the result that holds an ampersand one of the five entities
  \<open>&amp;\<close>, \<open>&lt;\<close>, \<open>&gt;\<close>, \<open>&quot;\<close>, \<open>&#39;\<close> starts. The title that
  \<open>showOverlay\<close> interpolates into the header's HTML goes through this function, so it
  reaches the HTML parser without any character that opens a tag, closes one or ends an
  attribute value.
\<close>

theorem escapeHtml_safe:
  "(\<forall>c\<in>set (escapeHtml s). c \<notin> {60, 62, 34, 39}) \<and>
   (\<forall>i<length (escapeHtml s). escapeHtml s ! i = 38 \<longrightarrow>
      (\<exists>e\<in>set entities. prefix e (drop i (escapeHtml s)))) \<and>
   headerHtml (showOverlay s b) =
     ustr ''<div>Summary '' @ [8212] @ ustr '' '' @ escapeHtml s @ ustr ''</div>''"
proof (intro conjI ballI allI impI)
  show "headerHtml (showOverlay s b) =
     ustr ''<div>Summary '' @ [8212] @ ustr '' '' @ escapeHtml s @ ustr ''</div>''"
    by (simp add: showOverlay_def header_def ustr_def)
next
  fix c assume "c \<in> set (escapeHtml s)"
  then show "c \<notin> {60, 62, 34, 39}"
    unfolding escapeHtml_def using escapeChar_no_raw by fastforce
next
  fix i assume i: "i < length (escapeHtml s)" and amp: "escapeHtml s ! i = 38"
  from i have "escapeHtml s = take i (escapeHtml s) @ escapeHtml s ! i # drop (Suc i) (escapeHtml s)"
    by (rule id_take_nth_drop)
  with amp have "escapeHtml s = take i (escapeHtml s) @ 38 # drop (Suc i) (escapeHtml s)" by simp
  then have "\<exists>e\<in>set entities. prefix e (38 # drop (Suc i) (escapeHtml s))"
    by (rule amp_starts_entity)
  moreover from i amp have "drop i (escapeHtml s) = 38 # drop (Suc i) (escapeHtml s)"
    by (metis Cons_nth_drop_Suc)
  ultimately show "\<exists>e\<in>set entities. prefix e (drop i (escapeHtml s))" by simp
qed

text \<open>The theorem at the title \<open><i>R&D</i>\<close>: the ampersand at index 10 starts \<open>&amp;\<close>.\<close>

theorem escapeHtml_safe_witness:
  "escapeHtml (ustr ''<i>R&D</i>'') = ustr ''&lt;i&gt;R&amp;D&lt;/i&gt;'' \<and>
   60 \<notin> set (escapeHtml (ustr ''<i>R&D</i>'')) \<and>
   escapeHtml (ustr ''<i>R&D</i>'') ! 10 = 38 \<and>
   prefix (ustr ''&amp;'') (drop 10 (escapeHtml (ustr ''<i>R&D</i>'')))"
  using escapeHtml_safe [of "ustr ''<i>R&D</i>''"]
  by (simp add: escapeHtml_def escapeChar_def ustr_def)

end
